theory Spec2Isabelle
  imports Main "HOL-Library.Sublist"
begin

section \<open>Python values, errors and library primitives\<close>

text \<open>
  Exceptions of the Python program are values. \<open>OtherError\<close> stands for the exceptions
  of the external collaborators (requests, openai, json, re, the CSS selector engine) that
  are not one of the built-in classes named here.
\<close>

datatype py_error =
    ValueError string
  | IndexError
  | KeyError string
  | TypeError
  | AttributeError
  | OtherError string

text \<open>What \<open>json.loads\<close> returns (numbers restricted to integers).\<close>

datatype json =
    JNull
  | JBool bool
  | JNum int
  | JStr string
  | JArr "json list"
  | JObj "(string \<times> json) list"

text \<open>
  The parse tree of BeautifulSoup. An attribute value is a string, or a list of tokens
  for a multi-valued attribute such as \<open>class\<close>. A \<open>Text\<close> node is a string of the
  document together with its class: \<open>NavigableString\<close> itself or one of its subclasses,
  which the parser chooses (\<open>Script\<close>, \<open>Stylesheet\<close> and \<open>TemplateString\<close> for the text
  inside \<open>script\<close>, \<open>style\<close> and \<open>template\<close>, \<open>RubyTextString\<close> and
  \<open>RubyParenthesisString\<close> inside \<open>rt\<close> and \<open>rp\<close>, \<open>Comment\<close> for a comment, and
  \<open>OtherString\<close> for a doctype, a declaration or a processing instruction). A \<open>Tag\<close>
  node carries its name, its attributes and its contents. The soup object itself is a
  \<open>Tag\<close> whose contents are the top-level nodes of the document.
  One \<open>char\<close> stands for one character of a Python \<open>str\<close>.
\<close>

datatype attr_value = AStr string | AList "string list"

datatype string_kind =
    NavigableString
  | CData
  | Comment
  | Script
  | Stylesheet
  | TemplateString
  | RubyTextString
  | RubyParenthesisString
  | OtherString

datatype node = Text string_kind string | Tag string "(string \<times> attr_value) list" "node list"

fun descendants :: "node \<Rightarrow> node list" where
  "descendants (Text k s) = []"
| "descendants (Tag n a cs) = concat (map (\<lambda>c. c # descendants c) cs)"

text \<open>
  \<open>get_text()\<close> joins the strings below an element whose class is one of the element's
  \<open>interesting_string_types\<close>: plain strings and CDATA sections in general, and for a
  \<open>script\<close>, \<open>style\<close>, \<open>template\<close>, \<open>rt\<close> or \<open>rp\<close> element the strings of its own
  class only. So the text of a script or a comment inside a division is not part of the
  text of the division. On a string itself \<open>get_text()\<close> gives the string if it is a
  plain string or a CDATA section, and the empty string otherwise.
\<close>

definition main_content_string_types :: "string_kind list" where
  "main_content_string_types = [NavigableString, CData]"

definition interesting_string_types :: "string \<Rightarrow> string_kind list" where
  "interesting_string_types name =
     (if name = ''script'' then [Script]
      else if name = ''style'' then [Stylesheet]
      else if name = ''template'' then [TemplateString]
      else if name = ''rt'' then [RubyTextString]
      else if name = ''rp'' then [RubyParenthesisString]
      else main_content_string_types)"

fun all_strings :: "string_kind list \<Rightarrow> node \<Rightarrow> string list" where
  "all_strings types (Text k s) = (if k \<in> set types then [s] else [])"
| "all_strings types (Tag n a cs) = concat (map (all_strings types) cs)"

fun get_text :: "node \<Rightarrow> string" where
  "get_text (Text k s) = concat (all_strings main_content_string_types (Text k s))"
| "get_text (Tag n a cs) = concat (all_strings (interesting_string_types n) (Tag n a cs))"

text \<open>The \<open>.string\<close> property: the single string below a chain of only children.\<close>

fun tag_string :: "node \<Rightarrow> string option" where
  "tag_string (Text k s) = Some s"
| "tag_string (Tag n a [c]) = tag_string c"
| "tag_string (Tag n a cs) = None"

fun tag_name :: "node \<Rightarrow> string option" where
  "tag_name (Text k s) = None"
| "tag_name (Tag n a cs) = Some n"

text \<open>The attribute of a tag, \<open>None\<close> when it is absent.\<close>

fun attr_of :: "node \<Rightarrow> string \<Rightarrow> attr_value option" where
  "attr_of (Text k s) key = None"
| "attr_of (Tag n a cs) key = map_of a key"

fun join_space :: "string list \<Rightarrow> string" where
  "join_space [] = []"
| "join_space [x] = x"
| "join_space (x # y # r) = x @ '' '' @ join_space (y # r)"

text \<open>
  How a keyword filter of \<open>find\<close>/\<open>find_all\<close> matches an attribute against a string:
  a string value must be equal; of a token list one token must be equal, or the tokens
  joined by spaces.
\<close>

fun matches_value :: "attr_value option \<Rightarrow> string \<Rightarrow> bool" where
  "matches_value None target = False"
| "matches_value (Some (AStr s)) target = (s = target)"
| "matches_value (Some (AList ts)) target = (target \<in> set ts \<or> join_space ts = target)"

definition is_named :: "string list \<Rightarrow> node \<Rightarrow> bool" where
  "is_named names x = (case tag_name x of None \<Rightarrow> False | Some n \<Rightarrow> n \<in> set names)"

definition has_attr :: "string \<Rightarrow> node \<Rightarrow> bool" where
  "has_attr key x = (case x of Text k s \<Rightarrow> False | Tag n a cs \<Rightarrow> map_of a key \<noteq> None)"

definition attr_matches :: "string \<Rightarrow> string \<Rightarrow> node \<Rightarrow> bool" where
  "attr_matches key target x =
     (case x of Text k s \<Rightarrow> False | Tag n a cs \<Rightarrow> matches_value (map_of a key) target)"

text \<open>\<open>find_all\<close> searches the descendants in document order; \<open>find\<close> is its first hit.\<close>

definition find_all :: "(node \<Rightarrow> bool) \<Rightarrow> node \<Rightarrow> node list" where
  "find_all p soup = filter p (descendants soup)"

definition find_first :: "(node \<Rightarrow> bool) \<Rightarrow> node \<Rightarrow> node option" where
  "find_first p soup = (case find_all p soup of [] \<Rightarrow> None | x # xs \<Rightarrow> Some x)"

text \<open>\<open>a or b\<close> on results of \<open>find\<close>: a found tag is always true, \<open>None\<close> is false.\<close>

definition py_or :: "'a option \<Rightarrow> 'a option \<Rightarrow> 'a option" where
  "py_or a b = (case a of None \<Rightarrow> b | Some x \<Rightarrow> Some x)"

text \<open>
  \<open>max(xs, key=f)\<close> keeps the first element that reaches the largest key: a later
  element replaces the best one only when its key is strictly larger.
\<close>

fun max_by :: "('a \<Rightarrow> nat) \<Rightarrow> 'a \<Rightarrow> 'a list \<Rightarrow> 'a" where
  "max_by f best [] = best"
| "max_by f best (x # xs) = max_by f (if f best < f x then x else best) xs"

text \<open>Characters that \<open>str.strip()\<close> removes, as code points below 256.\<close>

definition is_space :: "char \<Rightarrow> bool" where
  "is_space c =
     (let n = (of_char c :: nat)
      in (9 \<le> n \<and> n \<le> 13) \<or> (28 \<le> n \<and> n \<le> 32) \<or> n = 133 \<or> n = 160)"

definition py_strip :: "string \<Rightarrow> string" where
  "py_strip s = rev (dropWhile is_space (rev (dropWhile is_space s)))"

section \<open>StructureAnalyzer\<close>

record nav_link =
  link_text :: string
  link_href :: "attr_value option"

record element_info =
  el_count :: nat
  el_sample :: string

record list_info =
  list_type :: string
  items_count :: nat
  list_sample :: "string option"

record table_info =
  headers :: "string list"
  rows_count :: int

record page_schema =
  schema_elements :: "(string \<times> element_info) list"
  schema_lists :: "list_info list"
  schema_tables :: "table_info list"
  schema_forms :: "unit list"

record page_structure =
  title :: "string option"
  headings :: "string list"
  main_content :: "string option"
  navigation :: "nav_link list option"
  schema :: page_schema

text \<open>
  \<open>_identify_main_content\<close>. The fallback loop runs over all three container tags and
  assigns \<open>main_content\<close> for every tag that has candidates; there is no \<open>break\<close>.
\<close>

definition content_tags :: "string list" where
  "content_tags = [''article'', ''section'', ''div'']"

definition main_step :: "node \<Rightarrow> node option \<Rightarrow> string \<Rightarrow> node option" where
  "main_step soup main tag =
     (case find_all (is_named [tag]) soup of
        [] \<Rightarrow> main
      | c # cs \<Rightarrow> Some (max_by (\<lambda>x. length (get_text x)) c cs))"

definition explicit_main :: "node \<Rightarrow> node option" where
  "explicit_main soup =
     py_or (find_first (is_named [''main'']) soup)
       (py_or (find_first (attr_matches ''id'' ''main'') soup)
              (find_first (attr_matches ''class'' ''main'') soup))"

definition identify_main_content :: "node \<Rightarrow> string option" where
  "identify_main_content soup =
     (let main = explicit_main soup;
          main' = (if main = None then foldl (main_step soup) main content_tags else main)
      in map_option get_text main')"

text \<open>\<open>_extract_navigation\<close>.\<close>

definition nav_entry :: "node \<Rightarrow> nav_link" where
  "nav_entry a = \<lparr>link_text = get_text a, link_href = attr_of a ''href''\<rparr>"

definition extract_navigation :: "node \<Rightarrow> nav_link list option" where
  "extract_navigation soup =
     (case py_or (find_first (is_named [''nav'']) soup)
             (py_or (find_first (attr_matches ''class'' ''navigation'') soup)
                    (find_first (attr_matches ''id'' ''navigation'') soup)) of
        None \<Rightarrow> None
      | Some nav \<Rightarrow> Some (map nav_entry (find_all (is_named [''a'']) nav)))"

text \<open>
  \<open>_generate_page_schema\<close>. \<open>element.get('class')[0]\<close> indexes the attribute value: the
  first token of a token list, the first character of a plain string, and an
  \<open>IndexError\<close> when the value is empty.
\<close>

fun first_class :: "attr_value option \<Rightarrow> py_error + string" where
  "first_class None = Inl TypeError"
| "first_class (Some (AList [])) = Inl IndexError"
| "first_class (Some (AList (t # ts))) = Inr t"
| "first_class (Some (AStr [])) = Inl IndexError"
| "first_class (Some (AStr (c # cs))) = Inr [c]"

fun bump :: "string \<Rightarrow> (string \<times> element_info) list \<Rightarrow> (string \<times> element_info) list" where
  "bump k [] = []"
| "bump k ((k', v) # kvs) =
     (if k = k' then (k', v\<lparr>el_count := el_count v + 1\<rparr>) # kvs else (k', v) # bump k kvs)"

definition element_step ::
  "(string \<times> element_info) list \<Rightarrow> node \<Rightarrow> py_error + (string \<times> element_info) list" where
  "element_step els element =
     (case first_class (attr_of element ''class'') of
        Inl e \<Rightarrow> Inl e
      | Inr class_name \<Rightarrow>
          if map_of els class_name = None
          then Inr (els @ [(class_name, \<lparr>el_count = 1, el_sample = take 100 (get_text element)\<rparr>)])
          else Inr (bump class_name els))"

fun element_loop ::
  "(string \<times> element_info) list \<Rightarrow> node list \<Rightarrow> py_error + (string \<times> element_info) list" where
  "element_loop els [] = Inr els"
| "element_loop els (x # xs) =
     (case element_step els x of Inl e \<Rightarrow> Inl e | Inr els' \<Rightarrow> element_loop els' xs)"

definition list_entry :: "node \<Rightarrow> list_info" where
  "list_entry ul =
     \<lparr>list_type = (case tag_name ul of None \<Rightarrow> [] | Some n \<Rightarrow> n),
      items_count = length (find_all (is_named [''li'']) ul),
      list_sample = map_option get_text (find_first (is_named [''li'']) ul)\<rparr>"

definition table_entry :: "node \<Rightarrow> table_info" where
  "table_entry table =
     (let hs = map get_text (find_all (is_named [''th'']) table)
      in \<lparr>headers = hs,
          rows_count = (if hs \<noteq> [] then int (length (find_all (is_named [''tr'']) table)) - 1
                        else int (length (find_all (is_named [''tr'']) table)))\<rparr>)"

definition generate_page_schema :: "node \<Rightarrow> py_error + page_schema" where
  "generate_page_schema soup =
     (case element_loop [] (find_all (has_attr ''class'') soup) of
        Inl e \<Rightarrow> Inl e
      | Inr els \<Rightarrow>
          Inr \<lparr>schema_elements = els,
               schema_lists = map list_entry (find_all (is_named [''ul'', ''ol'']) soup),
               schema_tables = map table_entry (find_all (is_named [''table'']) soup),
               schema_forms = []\<rparr>)"

definition build_structure :: "node \<Rightarrow> py_error + page_structure" where
  "build_structure soup =
     (case generate_page_schema soup of
        Inl e \<Rightarrow> Inl e
      | Inr sch \<Rightarrow>
          Inr \<lparr>title = (case find_first (is_named [''title'']) soup of
                          None \<Rightarrow> None
                        | Some t \<Rightarrow> tag_string t),
               headings = map get_text (find_all (is_named [''h1'', ''h2'', ''h3'']) soup),
               main_content = identify_main_content soup,
               navigation = extract_navigation soup,
               schema = sch\<rparr>)"

section \<open>The scraper: external collaborators and state\<close>

record endpoint_config =
  cfg_url :: string
  cfg_selectors :: json
  cfg_query :: string
  cfg_method :: string
  cfg_parameters :: "(string \<times> json) list"

text \<open>
  The collaborators the program calls. \<open>web n url\<close> is what \<open>requests.get(url)\<close>
  followed by the HTML parser gives for the fetch issued after \<open>n\<close> earlier fetches, so a
  page may change between fetches. \<open>completion\<close> is the chat completion for the prompt
  built from a structure and a query, \<open>css_select\<close> is \<open>soup.select\<close>, \<open>regex_find\<close> is
  \<open>soup.find_all(string=re.compile(...))\<close>, and \<open>py_hash\<close> is the built-in \<open>hash\<close> of
  the running process.
\<close>

record env =
  web :: "nat \<Rightarrow> string \<Rightarrow> py_error + node"
  completion :: "page_structure \<Rightarrow> string \<Rightarrow> py_error + string"
  json_loads :: "string \<Rightarrow> py_error + json"
  css_select :: "json \<Rightarrow> node \<Rightarrow> py_error + node list"
  regex_find :: "json \<Rightarrow> node \<Rightarrow> py_error + node list"
  py_hash :: "string \<Rightarrow> int"

text \<open>
  The state: the dictionary \<open>cached_schemas\<close>, the entries of the \<open>lru_cache\<close> of
  \<open>analyze_page_structure\<close> (most recently used first), and the number of calls of
  \<open>requests.get\<close> so far.
\<close>

record scraper =
  cached_schemas :: "string \<rightharpoonup> endpoint_config"
  lru :: "(string \<times> page_structure) list"
  fetches :: nat

definition init_scraper :: scraper where
  "init_scraper = \<lparr>cached_schemas = Map.empty, lru = [], fetches = 0\<rparr>"

section \<open>SchemaCache\<close>

definition maxsize :: nat where
  "maxsize = 100"

text \<open>
  The body of \<open>analyze_page_structure\<close>: one fetch, one parse, one analysis.
\<close>

definition analyze_uncached :: "env \<Rightarrow> scraper \<Rightarrow> string \<Rightarrow> (py_error + page_structure) \<times> scraper" where
  "analyze_uncached ev st url =
     (let st' = st\<lparr>fetches := fetches st + 1\<rparr>
      in case web ev (fetches st) url of
           Inl e \<Rightarrow> (Inl e, st')
         | Inr soup \<Rightarrow> (build_structure soup, st'))"

text \<open>
  \<open>functools.lru_cache(maxsize=100)\<close> around it: a hit returns the stored value and makes
  the entry the most recent one; a miss runs the body, stores nothing when the body
  raises, and otherwise stores the result, dropping the least recently used entry when
  the cache is full.
\<close>

definition lru_store :: "string \<Rightarrow> page_structure \<Rightarrow> (string \<times> page_structure) list \<Rightarrow> (string \<times> page_structure) list" where
  "lru_store url s cache =
     (if length cache \<ge> maxsize then (url, s) # butlast cache else (url, s) # cache)"

definition analyze_page_structure :: "env \<Rightarrow> scraper \<Rightarrow> string \<Rightarrow> (py_error + page_structure) \<times> scraper" where
  "analyze_page_structure ev st url =
     (case map_of (lru st) url of
        Some s \<Rightarrow> (Inr s, st\<lparr>lru := (url, s) # filter (\<lambda>kv. fst kv \<noteq> url) (lru st)\<rparr>)
      | None \<Rightarrow>
          (case analyze_uncached ev st url of
             (Inl e, st') \<Rightarrow> (Inl e, st')
           | (Inr s, st') \<Rightarrow> (Inr s, st'\<lparr>lru := lru_store url s (lru st')\<rparr>)))"

section \<open>EndpointRegistry\<close>

text \<open>\<open>str.split(sep)\<close> for a non-empty separator: the pieces between its occurrences.\<close>

function split_on :: "string \<Rightarrow> string \<Rightarrow> string list" where
  "split_on sep [] = [[]]"
| "split_on sep (c # cs) =
     (if sep \<noteq> [] \<and> prefix sep (c # cs)
      then [] # split_on sep (drop (length sep) (c # cs))
      else (case split_on sep cs of [] \<Rightarrow> [[c]] | p # ps \<Rightarrow> (c # p) # ps))"
  by pat_completeness auto
termination
  by (relation "measure (\<lambda>(sep, s). length s)") auto

definition py_split :: "string \<Rightarrow> string \<Rightarrow> py_error + string list" where
  "py_split s sep = (if sep = [] then Inl (ValueError ''empty separator'') else Inr (split_on sep s))"

text \<open>\<open>xs[1]\<close>.\<close>

fun index1 :: "'a list \<Rightarrow> py_error + 'a" where
  "index1 (x # y # ys) = Inr y"
| "index1 xs = Inl IndexError"

definition is_alnum :: "char \<Rightarrow> bool" where
  "is_alnum c =
     (let n = (of_char c :: nat)
      in (48 \<le> n \<and> n \<le> 57) \<or> (65 \<le> n \<and> n \<le> 90) \<or> (97 \<le> n \<and> n \<le> 122))"

text \<open>\<open>re.sub(r'[^a-zA-Z0-9]', '_', s)\<close>.\<close>

definition sanitize :: "string \<Rightarrow> string" where
  "sanitize s = map (\<lambda>c. if is_alnum c then c else CHR ''_'') s"

text \<open>The decimal digits of a natural number, as \<open>str\<close> and an f-string print it.\<close>

definition digit_char :: "nat \<Rightarrow> char" where
  "digit_char d = char_of (48 + d)"

function digits_of :: "nat \<Rightarrow> string" where
  "digits_of n = (if n < 10 then [digit_char n] else digits_of (n div 10) @ [digit_char (n mod 10)])"
  by pat_completeness auto
termination
  by (relation "measure id") auto

declare digits_of.simps [simp del]

definition generate_endpoint_id :: "env \<Rightarrow> string \<Rightarrow> string \<Rightarrow> py_error + string" where
  "generate_endpoint_id ev url query =
     (case py_split url ''//'' of
        Inl e \<Rightarrow> Inl e
      | Inr pieces \<Rightarrow>
          (case index1 pieces of
             Inl e \<Rightarrow> Inl e
           | Inr piece \<Rightarrow>
               (let base = sanitize piece;
                    query_hash = py_hash ev query mod 10000
                in Inr (''scrape_'' @ base @ ''_'' @ digits_of (nat query_hash)))))"

section \<open>SelectorPlanner and endpoint generation\<close>

definition generate_api_endpoint ::
  "env \<Rightarrow> scraper \<Rightarrow> string \<Rightarrow> string \<Rightarrow> (py_error + string \<times> endpoint_config) \<times> scraper" where
  "generate_api_endpoint ev st url query =
     (case analyze_page_structure ev st url of
        (Inl e, st1) \<Rightarrow> (Inl e, st1)
      | (Inr structure, st1) \<Rightarrow>
          (case completion ev structure query of
             Inl e \<Rightarrow> (Inl e, st1)
           | Inr content \<Rightarrow>
               (case json_loads ev content of
                  Inl e \<Rightarrow> (Inl e, st1)
                | Inr selectors \<Rightarrow>
                    (let endpoint_config =
                           \<lparr>cfg_url = url, cfg_selectors = selectors, cfg_query = query,
                            cfg_method = ''GET'',
                            cfg_parameters =
                              [(''format'', JStr ''json''), (''cache_timeout'', JNum 3600)]\<rparr>
                     in case generate_endpoint_id ev url query of
                          Inl e \<Rightarrow> (Inl e, st1)
                        | Inr endpoint_id \<Rightarrow>
                            (Inr (endpoint_id, endpoint_config),
                             st1\<lparr>cached_schemas :=
                                   (cached_schemas st1)(endpoint_id \<mapsto> endpoint_config)\<rparr>)))))"

section \<open>ExtractionExecutor\<close>

text \<open>
  The stored \<open>selectors\<close> value is whatever \<open>json.loads\<close> returned, so the loops below
  follow Python's dynamic rules: iterating a list gives its items, a dictionary its keys,
  a string its characters, anything else is not iterable; subscripting with a string
  works on a dictionary only.
\<close>

fun py_iter :: "json \<Rightarrow> py_error + json list" where
  "py_iter (JArr xs) = Inr xs"
| "py_iter (JObj kvs) = Inr (map (\<lambda>kv. JStr (fst kv)) kvs)"
| "py_iter (JStr s) = Inr (map (\<lambda>c. JStr [c]) s)"
| "py_iter v = Inl TypeError"

fun py_getitem :: "json \<Rightarrow> string \<Rightarrow> py_error + json" where
  "py_getitem (JObj kvs) key =
     (case map_of kvs key of None \<Rightarrow> Inl (KeyError key) | Some v \<Rightarrow> Inr v)"
| "py_getitem v key = Inl TypeError"

record extraction =
  res_type :: json
  res_value :: attr_value

text \<open>The truth value of an extracted value: \<open>None\<close>, \<open>''\<close> and \<open>[]\<close> are false.\<close>

fun truthy :: "attr_value option \<Rightarrow> bool" where
  "truthy None = False"
| "truthy (Some (AStr s)) = (s \<noteq> [])"
| "truthy (Some (AList ts)) = (ts \<noteq> [])"

text \<open>
  \<open>element.get(attribute)\<close> with the attribute name taken from the selector: a
  dictionary lookup, which refuses an unhashable key and finds no key that is not a
  string.
\<close>

fun get_attribute :: "node \<Rightarrow> json \<Rightarrow> py_error + attr_value option" where
  "get_attribute (Text k s) key = Inl AttributeError"
| "get_attribute (Tag n a cs) (JStr k) = Inr (map_of a k)"
| "get_attribute (Tag n a cs) (JArr xs) = Inl TypeError"
| "get_attribute (Tag n a cs) (JObj kvs) = Inl TypeError"
| "get_attribute (Tag n a cs) key = Inr None"

definition extract_value :: "json \<Rightarrow> node \<Rightarrow> py_error + attr_value option" where
  "extract_value selector element =
     (case py_getitem selector ''attribute'' of
        Inl e \<Rightarrow> Inl e
      | Inr attribute \<Rightarrow>
          if attribute = JStr ''text''
          then Inr (Some (AStr (py_strip (get_text element))))
          else get_attribute element attribute)"

text \<open>The body of the inner loop: one matched element.\<close>

definition element_result :: "json \<Rightarrow> extraction list \<Rightarrow> node \<Rightarrow> py_error + extraction list" where
  "element_result selector results element =
     (case extract_value selector element of
        Inl e \<Rightarrow> Inl e
      | Inr None \<Rightarrow> Inr results
      | Inr (Some v) \<Rightarrow>
          if truthy (Some v)
          then (case py_getitem selector ''description'' of
                  Inl e \<Rightarrow> Inl e
                | Inr d \<Rightarrow> Inr (results @ [\<lparr>res_type = d, res_value = v\<rparr>]))
          else Inr results)"

fun elements_loop :: "json \<Rightarrow> extraction list \<Rightarrow> node list \<Rightarrow> py_error + extraction list" where
  "elements_loop selector results [] = Inr results"
| "elements_loop selector results (x # xs) =
     (case element_result selector results x of
        Inl e \<Rightarrow> Inl e
      | Inr results' \<Rightarrow> elements_loop selector results' xs)"

text \<open>The body of the outer loop: one selector.\<close>

definition select_elements :: "env \<Rightarrow> node \<Rightarrow> json \<Rightarrow> py_error + node list" where
  "select_elements ev soup selector =
     (case py_getitem selector ''type'' of
        Inl e \<Rightarrow> Inl e
      | Inr t \<Rightarrow>
          (case py_getitem selector ''selector'' of
             Inl e \<Rightarrow> Inl e
           | Inr s \<Rightarrow> if t = JStr ''css'' then css_select ev s soup else regex_find ev s soup))"

definition selector_step :: "env \<Rightarrow> node \<Rightarrow> extraction list \<Rightarrow> json \<Rightarrow> py_error + extraction list" where
  "selector_step ev soup results selector =
     (case select_elements ev soup selector of
        Inl e \<Rightarrow> Inl e
      | Inr elements \<Rightarrow> elements_loop selector results elements)"

fun selectors_loop :: "env \<Rightarrow> node \<Rightarrow> extraction list \<Rightarrow> json list \<Rightarrow> py_error + extraction list" where
  "selectors_loop ev soup results [] = Inr results"
| "selectors_loop ev soup results (s # ss) =
     (case selector_step ev soup results s of
        Inl e \<Rightarrow> Inl e
      | Inr results' \<Rightarrow> selectors_loop ev soup results' ss)"

definition execute_scraping :: "env \<Rightarrow> scraper \<Rightarrow> string \<Rightarrow> (py_error + extraction list) \<times> scraper" where
  "execute_scraping ev st endpoint_id =
     (case cached_schemas st endpoint_id of
        None \<Rightarrow> (Inl (ValueError ''Invalid endpoint ID''), st)
      | Some config \<Rightarrow>
          (let st' = st\<lparr>fetches := fetches st + 1\<rparr>
           in case web ev (fetches st) (cfg_url config) of
                Inl e \<Rightarrow> (Inl e, st')
              | Inr soup \<Rightarrow>
                  (case py_iter (cfg_selectors config) of
                     Inl e \<Rightarrow> (Inl e, st')
                   | Inr selectors \<Rightarrow> (selectors_loop ev soup [] selectors, st'))))"

section \<open>The request-facing routes\<close>

datatype body =
    ErrorBody string
  | ResultsBody "extraction list"
  | AnalyzeBody string endpoint_config "extraction list"

text \<open>
  A route returns a status and a body, or lets an exception escape (\<open>Inl\<close>).
  \<open>url\<close> and \<open>query\<close> are \<open>None\<close> when the request body lacks them.
\<close>

definition analyze_webpage ::
  "env \<Rightarrow> scraper \<Rightarrow> string option \<Rightarrow> string option \<Rightarrow> (py_error + nat \<times> body) \<times> scraper" where
  "analyze_webpage ev st url query =
     (case (url, query) of
        (Some u, Some q) \<Rightarrow>
          if u = [] \<or> q = [] then (Inr (400, ErrorBody ''Missing url or query''), st)
          else
            (case generate_api_endpoint ev st u q of
               (Inl e, st1) \<Rightarrow> (Inl e, st1)
             | (Inr (endpoint_id, config), st1) \<Rightarrow>
                 (case execute_scraping ev st1 endpoint_id of
                    (Inl e, st2) \<Rightarrow> (Inl e, st2)
                  | (Inr results, st2) \<Rightarrow>
                      (Inr (200, AnalyzeBody (''/api/scrape/'' @ endpoint_id) config results), st2)))
      | _ \<Rightarrow> (Inr (400, ErrorBody ''Missing url or query''), st))"

definition scrape_endpoint ::
  "env \<Rightarrow> scraper \<Rightarrow> string \<Rightarrow> (py_error + nat \<times> body) \<times> scraper" where
  "scrape_endpoint ev st endpoint_id =
     (case execute_scraping ev st endpoint_id of
        (Inr results, st') \<Rightarrow> (Inr (200, ResultsBody results), st')
      | (Inl (ValueError msg), st') \<Rightarrow> (Inr (404, ErrorBody msg), st')
      | (Inl e, st') \<Rightarrow> (Inl e, st'))"

section \<open>What the fetch collaborator accepts\<close>

text \<open>
  \<open>requests.get\<close> strips leading whitespace from the URL and connects only when the URL
  then starts, in any letter case, with \<open>http://\<close> or \<open>https://\<close>. For every other URL it
  raises \<open>MissingSchema\<close>, \<open>InvalidSchema\<close> or \<open>InvalidURL\<close> before any connection; all
  three are subclasses of \<open>ValueError\<close> and are the one error \<open>invalid_url\<close> here.
  \<open>requests_like\<close> says that the fetch of an environment behaves so.
\<close>

definition ascii_lower :: "char \<Rightarrow> char" where
  "ascii_lower c =
     (let n = (of_char c :: nat) in if 65 \<le> n \<and> n \<le> 90 then char_of (n + 32) else c)"

definition accepted_url :: "string \<Rightarrow> bool" where
  "accepted_url url =
     (let u = map ascii_lower (dropWhile is_space url)
      in prefix ''http://'' u \<or> prefix ''https://'' u)"

definition invalid_url :: py_error where
  "invalid_url = ValueError ''Invalid URL''"

definition requests_like :: "env \<Rightarrow> bool" where
  "requests_like ev = (\<forall>n url. \<not> accepted_url url \<longrightarrow> web ev n url = Inl invalid_url)"

text \<open>Every URL in the cache is one that the fetch accepts.\<close>

definition cached_urls_accepted :: "scraper \<Rightarrow> bool" where
  "cached_urls_accepted st = list_all (\<lambda>kv. accepted_url (fst kv)) (lru st)"

section \<open>Example documents and collaborators\<close>

text \<open>
  The page of the end-to-end scenario:
  \<^verbatim>\<open><html><head><title>T</title></head><body><main><h1>Hi</h1>
  <ul><li>A</li><li>B</li></ul></main></body></html>\<close>
\<close>

definition example_page :: node where
  "example_page =
     Tag ''[document]'' []
       [Tag ''html'' []
          [Tag ''head'' [] [Tag ''title'' [] [Text NavigableString ''T'']],
           Tag ''body'' []
             [Tag ''main'' []
                [Tag ''h1'' [] [Text NavigableString ''Hi''],
                 Tag ''ul'' [] [Tag ''li'' [] [Text NavigableString ''A''], Tag ''li'' [] [Text NavigableString ''B'']]]]]]"

text \<open>A page without classed elements, lists or tables.\<close>

definition plain_page :: node where
  "plain_page =
     Tag ''[document]'' [] [Tag ''html'' [] [Tag ''body'' [] [Tag ''p'' [] [Text NavigableString ''hello'']]]]"

text \<open>A table with a header row and a data row, and a table with one data row only.\<close>

definition table_page :: node where
  "table_page =
     Tag ''[document]'' []
       [Tag ''table'' []
          [Tag ''tr'' [] [Tag ''th'' [] [Text NavigableString ''H'']],
           Tag ''tr'' [] [Tag ''td'' [] [Text NavigableString ''1'']]],
        Tag ''table'' [] [Tag ''tr'' [] [Tag ''td'' [] [Text NavigableString ''x'']]]]"

text \<open>An article with a long text followed by a division with a short one.\<close>

definition mixed_page :: node where
  "mixed_page =
     Tag ''[document]'' []
       [Tag ''article'' [] [Text NavigableString ''a long story''],
        Tag ''div'' [] [Text NavigableString ''x'']]"

text \<open>List items and links of which some have no text or no \<open>href\<close>.\<close>

definition sparse_page :: node where
  "sparse_page =
     Tag ''[document]'' []
       [Tag ''ul'' [] [Tag ''li'' [] [Text NavigableString ''A''], Tag ''li'' [] [Text NavigableString ''  ''], Tag ''li'' [] []],
        Tag ''a'' [(''href'', AStr ''/x'')] [Text NavigableString ''x''],
        Tag ''a'' [] [Text NavigableString ''y'']]"

text \<open>A response of the shape the prompt asks for, as \<open>json.loads\<close> returns it.\<close>

definition example_selectors :: "json list" where
  "example_selectors =
     [JObj [(''type'', JStr ''css''), (''selector'', JStr ''li''),
            (''attribute'', JStr ''text''), (''description'', JStr ''list items'')]]"

definition example_payload :: "(string \<times> json) list" where
  "example_payload =
     [(''selectors'', JArr example_selectors),
      (''preprocessing'', JArr []),
      (''postprocessing'', JArr [])]"

text \<open>
  Collaborators for the examples: two reachable pages, while every other URL is
  rejected or fails to connect; a completion that always answers with the payload above;
  a selector engine that knows tag names only; a pattern search for patterns without
  special characters, which finds the strings that contain the pattern; and the length of
  a string as its hash.
\<close>

definition contains_pattern :: "string \<Rightarrow> node \<Rightarrow> bool" where
  "contains_pattern p x = (case x of Text k s \<Rightarrow> sublist p s | Tag n a cs \<Rightarrow> False)"

definition example_env :: env where
  "example_env =
     \<lparr>web = (\<lambda>n url.
              if url = ''http://example.com/page'' then Inr example_page
              else if url = ''http://example.com/sparse'' then Inr sparse_page
              else if accepted_url url then Inl (OtherError ''ConnectionError'')
              else Inl invalid_url),
      completion = (\<lambda>s q. Inr ''<payload>''),
      json_loads = (\<lambda>c. if c = ''<payload>'' then Inr (JObj example_payload)
                          else Inl (ValueError ''JSONDecodeError'')),
      css_select = (\<lambda>s soup. case s of JStr n \<Rightarrow> Inr (find_all (is_named [n]) soup)
                                        | _ \<Rightarrow> Inl TypeError),
      regex_find = (\<lambda>s soup. case s of JStr p \<Rightarrow> Inr (filter (contains_pattern p) (descendants soup))
                                        | _ \<Rightarrow> Inl TypeError),
      py_hash = (\<lambda>q. int (length q))\<rparr>"

text \<open>An endpoint whose stored selectors are a plain list of two selector objects.\<close>

definition sparse_config :: endpoint_config where
  "sparse_config =
     \<lparr>cfg_url = ''http://example.com/sparse'',
      cfg_selectors =
        JArr [JObj [(''type'', JStr ''css''), (''selector'', JStr ''li''),
                    (''attribute'', JStr ''text''), (''description'', JStr ''items'')],
              JObj [(''type'', JStr ''css''), (''selector'', JStr ''a''),
                    (''attribute'', JStr ''href''), (''description'', JStr ''links'')]],
      cfg_query = ''items and links'',
      cfg_method = ''GET'',
      cfg_parameters = [(''format'', JStr ''json''), (''cache_timeout'', JNum 3600)]\<rparr>"

definition sparse_scraper :: scraper where
  "sparse_scraper = init_scraper\<lparr>cached_schemas := [''sparse'' \<mapsto> sparse_config]\<rparr>"

text \<open>The same collaborators, with a completion whose answer parses to a plain array.\<close>

definition array_env :: env where
  "array_env = example_env\<lparr>json_loads := (\<lambda>c. Inr (JArr example_selectors))\<rparr>"

text \<open>
  An endpoint with one selector of the \<open>xpath\<close> kind that asks for an attribute, as the
  prompt allows.
\<close>

definition xpath_selector :: json where
  "xpath_selector =
     JObj [(''type'', JStr ''xpath''), (''selector'', JStr ''A''),
           (''attribute'', JStr ''href''), (''description'', JStr ''links'')]"

definition xpath_config :: endpoint_config where
  "xpath_config =
     \<lparr>cfg_url = ''http://example.com/page'',
      cfg_selectors = JArr [xpath_selector],
      cfg_query = ''links'',
      cfg_method = ''GET'',
      cfg_parameters = [(''format'', JStr ''json''), (''cache_timeout'', JNum 3600)]\<rparr>"

definition xpath_scraper :: scraper where
  "xpath_scraper = init_scraper\<lparr>cached_schemas := [''xpath'' \<mapsto> xpath_config]\<rparr>"

text \<open>
  Two divisions, the first with a script between two letters:
  \<^verbatim>\<open><div>a<script>var x=1;</script>b</div><div>abcd</div>\<close>
\<close>

definition script_page :: node where
  "script_page =
     Tag ''[document]'' []
       [Tag ''div'' []
          [Text NavigableString ''a'',
           Tag ''script'' [] [Text Script ''var x=1;''],
           Text NavigableString ''b''],
        Tag ''div'' [] [Text NavigableString ''abcd'']]"

section \<open>Auxiliary notions for the statements\<close>

text \<open>
  The candidates that the fallback loop of \<open>_identify_main_content\<close> ends with: the
  elements of the last of the tags \<open>article\<close>, \<open>section\<close>, \<open>div\<close> that occurs in the
  document.
\<close>

definition last_present_candidates :: "node \<Rightarrow> node list" where
  "last_present_candidates soup =
     (if find_all (is_named [''div'']) soup \<noteq> [] then find_all (is_named [''div'']) soup
      else if find_all (is_named [''section'']) soup \<noteq> [] then find_all (is_named [''section'']) soup
      else find_all (is_named [''article'']) soup)"

text \<open>
  The fallback as the specification words it: the first largest-by-text-length element
  among the elements of the three container tags taken together, and no main content
  when that element has no text.
\<close>

definition spec_main_content :: "node \<Rightarrow> string option" where
  "spec_main_content soup =
     (case find_all (is_named content_tags) soup of
        [] \<Rightarrow> None
      | c # cs \<Rightarrow>
          (let best = max_by (\<lambda>x. length (get_text x)) c cs
           in if get_text best = [] then None else Some (get_text best)))"

text \<open>
  The part of a string before its first \<open>//\<close> (the whole string when it has none), and
  the part after it (empty when it has none).
\<close>

fun before_dslash :: "string \<Rightarrow> string" where
  "before_dslash (a # b # r) =
     (if a = CHR ''/'' \<and> b = CHR ''/'' then [] else a # before_dslash (b # r))"
| "before_dslash s = s"

fun after_dslash :: "string \<Rightarrow> string" where
  "after_dslash (a # b # r) =
     (if a = CHR ''/'' \<and> b = CHR ''/'' then r else after_dslash (b # r))"
| "after_dslash s = []"

definition is_digit :: "char \<Rightarrow> bool" where
  "is_digit c = (let n = (of_char c :: nat) in 48 \<le> n \<and> n \<le> 57)"

text \<open>
  The endpoint id as the specification words it, for a URL with a scheme prefix: the
  whole URL after the scheme separator, sanitized, then the fingerprint of the query.
\<close>

definition spec_endpoint_id :: "env \<Rightarrow> string \<Rightarrow> string \<Rightarrow> string" where
  "spec_endpoint_id ev url query =
     ''scrape_'' @ sanitize (after_dslash url) @ ''_'' @ digits_of (nat (py_hash ev query mod 10000))"

text \<open>
  The cache as \<open>lru_cache\<close> keeps it: one entry per key and at most \<open>maxsize\<close> entries.
\<close>

definition cache_ok :: "scraper \<Rightarrow> bool" where
  "cache_ok st = (distinct (map fst (lru st)) \<and> length (lru st) \<le> maxsize)"

text \<open>A sequence of analyses, one per URL of a list, whatever each of them returns.\<close>

fun analyze_many :: "env \<Rightarrow> scraper \<Rightarrow> string list \<Rightarrow> scraper" where
  "analyze_many ev st [] = st"
| "analyze_many ev st (u # us) = analyze_many ev (snd (analyze_page_structure ev st u)) us"

text \<open>
  The entry \<open>(url, s)\<close> is in the cache, and every entry used more recently has its key
  in \<open>A\<close>.
\<close>

definition held_behind :: "string \<Rightarrow> page_structure \<Rightarrow> string set \<Rightarrow> scraper \<Rightarrow> bool" where
  "held_behind url s A st =
     (\<exists>pre post. lru st = pre @ (url, s) # post \<and> fst ` set pre \<subseteq> A)"

section \<open>Evaluation of the examples\<close>

lemma generate_example:
  "fst (generate_api_endpoint example_env init_scraper ''http://example.com/page'' ''get list items'') =
     Inr (''scrape_example_com_page_14'',
          \<lparr>cfg_url = ''http://example.com/page'', cfg_selectors = JObj example_payload,
           cfg_query = ''get list items'', cfg_method = ''GET'',
           cfg_parameters = [(''format'', JStr ''json''), (''cache_timeout'', JNum 3600)]\<rparr>)"
  by code_simp

lemma find_table_page:
  "find_all (is_named [''table'']) table_page =
     [Tag ''table'' []
        [Tag ''tr'' [] [Tag ''th'' [] [Text NavigableString ''H'']],
         Tag ''tr'' [] [Tag ''td'' [] [Text NavigableString ''1'']]],
      Tag ''table'' [] [Tag ''tr'' [] [Tag ''td'' [] [Text NavigableString ''x'']]]]"
  by code_simp

lemma schema_table_page:
  "generate_page_schema table_page =
     Inr \<lparr>schema_elements = [], schema_lists = [],
          schema_tables = [\<lparr>headers = [''H''], rows_count = 1\<rparr>, \<lparr>headers = [], rows_count = 1\<rparr>],
          schema_forms = []\<rparr>"
  by code_simp

section \<open>PageSchema\<close>

text \<open>
  The schema is built whenever every classed element has a first class token; only the
  indexing of an empty \<open>class\<close> value can fail.
\<close>

lemma element_loop_succeeds:
  assumes "\<forall>x \<in> set xs. \<exists>c. first_class (attr_of x ''class'') = Inr c"
  shows "\<exists>els'. element_loop els xs = Inr els'"
  using assms
proof (induction xs arbitrary: els)
  case Nil
  then show ?case by simp
next
  case (Cons x xs)
  then obtain c where "first_class (attr_of x ''class'') = Inr c" by auto
  then have "\<exists>els1. element_step els x = Inr els1"
    by (simp add: element_step_def)
  then obtain els1 where "element_step els x = Inr els1" ..
  with Cons show ?case by simp
qed

lemma generate_page_schema_succeeds:
  assumes "\<forall>x \<in> set (find_all (has_attr ''class'') soup). \<exists>c. first_class (attr_of x ''class'') = Inr c"
  shows "\<exists>sch. generate_page_schema soup = Inr sch"
proof -
  from element_loop_succeeds [OF assms] obtain els where
    "element_loop [] (find_all (has_attr ''class'') soup) = Inr els" by blast
  then show ?thesis by (simp add: generate_page_schema_def)
qed

text \<open>
  Claim C9. A document without classed elements, without ordered or unordered lists and
  without tables gets a schema, and its \<open>elements\<close>, \<open>lists\<close> and \<open>tables\<close> are empty.
\<close>

theorem schema_of_plain_document_is_empty:
  assumes "find_all (has_attr ''class'') soup = []"
      and "find_all (is_named [''ul'', ''ol'']) soup = []"
      and "find_all (is_named [''table'']) soup = []"
  shows "generate_page_schema soup =
           Inr \<lparr>schema_elements = [], schema_lists = [], schema_tables = [], schema_forms = []\<rparr>"
  using assms by (simp add: generate_page_schema_def)

theorem schema_of_plain_document_is_empty_witness:
  "find_all (has_attr ''class'') plain_page = [] \<and>
   find_all (is_named [''ul'', ''ol'']) plain_page = [] \<and>
   find_all (is_named [''table'']) plain_page = [] \<and>
   generate_page_schema plain_page =
     Inr \<lparr>schema_elements = [], schema_lists = [], schema_tables = [], schema_forms = []\<rparr>"
proof -
  have a: "find_all (has_attr ''class'') plain_page = []"
    by code_simp
  have b: "find_all (is_named [''ul'', ''ol'']) plain_page = []"
    by code_simp
  have c: "find_all (is_named [''table'']) plain_page = []"
    by code_simp
  from a b c schema_of_plain_document_is_empty [OF a b c] show ?thesis by simp
qed

text \<open>
  Claim C6. When the schema of a document is built, it has one entry per table of the
  document, in document order, and the \<open>rows_count\<close> of an entry is the number of rows of
  its table minus one if the table has header cells, and the number of rows otherwise.
\<close>

theorem rows_count_excludes_header_row:
  assumes "generate_page_schema soup = Inr sch"
  shows "length (schema_tables sch) = length (find_all (is_named [''table'']) soup) \<and>
         (\<forall>i < length (find_all (is_named [''table'']) soup).
            rows_count (schema_tables sch ! i) =
              (if find_all (is_named [''th'']) (find_all (is_named [''table'']) soup ! i) \<noteq> []
               then int (length (find_all (is_named [''tr'']) (find_all (is_named [''table'']) soup ! i))) - 1
               else int (length (find_all (is_named [''tr'']) (find_all (is_named [''table'']) soup ! i)))))"
  using assms
  by (auto simp: generate_page_schema_def table_entry_def Let_def split: sum.splits)

theorem rows_count_excludes_header_row_witness:
  "generate_page_schema table_page =
     Inr \<lparr>schema_elements = [], schema_lists = [],
          schema_tables = [\<lparr>headers = [''H''], rows_count = 1\<rparr>, \<lparr>headers = [], rows_count = 1\<rparr>],
          schema_forms = []\<rparr> \<and>
   length (find_all (is_named [''table'']) table_page) = 2 \<and>
   find_all (is_named [''th'']) (find_all (is_named [''table'']) table_page ! 0) \<noteq> [] \<and>
   int (length (find_all (is_named [''tr'']) (find_all (is_named [''table'']) table_page ! 0))) - 1 = 1 \<and>
   find_all (is_named [''th'']) (find_all (is_named [''table'']) table_page ! 1) = [] \<and>
   int (length (find_all (is_named [''tr'']) (find_all (is_named [''table'']) table_page ! 1))) = 1"
proof -
  note r = rows_count_excludes_header_row [OF schema_table_page, THEN conjunct2, rule_format]
  have len: "length (find_all (is_named [''table'']) table_page) = 2"
    unfolding find_table_page by simp
  have th0: "find_all (is_named [''th'']) (find_all (is_named [''table'']) table_page ! 0) \<noteq> []"
    unfolding find_table_page by code_simp
  have th1: "find_all (is_named [''th'']) (find_all (is_named [''table'']) table_page ! 1) = []"
    unfolding find_table_page by code_simp
  have c0: "int (length (find_all (is_named [''tr'']) (find_all (is_named [''table'']) table_page ! 0))) - 1 = 1"
    using r [of 0] len th0 by simp
  have c1: "int (length (find_all (is_named [''tr'']) (find_all (is_named [''table'']) table_page ! 1))) = 1"
    using r [of 1] len th1 by simp
  from schema_table_page len th0 th1 c0 c1 show ?thesis by blast
qed

section \<open>EndpointRegistry and replay\<close>

text \<open>
  The registry starts empty, and an id enters it only as the id that a successful
  \<open>generate_api_endpoint\<close> returns; neither analysis nor replay changes the registry.
\<close>

lemma analyze_keeps_registry:
  "cached_schemas (snd (analyze_page_structure ev st url)) = cached_schemas st"
  by (simp add: analyze_page_structure_def analyze_uncached_def Let_def split: option.splits sum.splits)

lemma execute_keeps_registry:
  "cached_schemas (snd (execute_scraping ev st endpoint_id)) = cached_schemas st"
  by (simp add: execute_scraping_def Let_def split: option.splits sum.splits)

lemma registry_grows_by_generate_only:
  assumes "generate_api_endpoint ev st url query = (r, st')"
      and "cached_schemas st endpoint_id = None"
      and "cached_schemas st' endpoint_id \<noteq> None"
  shows "\<exists>config. r = Inr (endpoint_id, config)"
proof -
  obtain a st1 where a: "analyze_page_structure ev st url = (a, st1)"
    by (cases "analyze_page_structure ev st url")
  with analyze_keeps_registry [of ev st url] have "cached_schemas st1 = cached_schemas st"
    by simp
  with assms a show ?thesis
    by (auto simp: generate_api_endpoint_def Let_def split: sum.splits if_splits)
qed

text \<open>
  Claim C3. For an endpoint id that is not in the registry, \<open>execute_scraping\<close> raises
  \<open>ValueError('Invalid endpoint ID')\<close> and leaves the state as it was, the fetch counter
  included, so no fetch has been issued; \<open>GET /api/scrape/<id>\<close> answers this error with
  status 404 and the error message.
\<close>

theorem unregistered_endpoint_is_not_found:
  assumes "cached_schemas st endpoint_id = None"
  shows "execute_scraping ev st endpoint_id = (Inl (ValueError ''Invalid endpoint ID''), st) \<and>
         scrape_endpoint ev st endpoint_id = (Inr (404, ErrorBody ''Invalid endpoint ID''), st)"
  using assms by (simp add: execute_scraping_def scrape_endpoint_def)

theorem unregistered_endpoint_is_not_found_witness:
  "cached_schemas sparse_scraper ''scrape_example_com_page_14'' = None \<and>
   execute_scraping example_env sparse_scraper ''scrape_example_com_page_14'' =
     (Inl (ValueError ''Invalid endpoint ID''), sparse_scraper) \<and>
   scrape_endpoint example_env sparse_scraper ''scrape_example_com_page_14'' =
     (Inr (404, ErrorBody ''Invalid endpoint ID''), sparse_scraper)"
proof -
  have h: "cached_schemas sparse_scraper ''scrape_example_com_page_14'' = None"
    by (simp add: sparse_scraper_def init_scraper_def)
  from h unregistered_endpoint_is_not_found [OF h, of example_env] show ?thesis by simp
qed

lemma generate_array:
  "fst (generate_api_endpoint array_env init_scraper ''http://example.com/page'' ''get list items'') =
     Inr (''scrape_example_com_page_14'',
          \<lparr>cfg_url = ''http://example.com/page'', cfg_selectors = JArr example_selectors,
           cfg_query = ''get list items'', cfg_method = ''GET'',
           cfg_parameters = [(''format'', JStr ''json''), (''cache_timeout'', JNum 3600)]\<rparr>)"
  by code_simp

lemma replay_array:
  "fst (execute_scraping array_env
          (snd (generate_api_endpoint array_env init_scraper ''http://example.com/page'' ''get list items''))
          ''scrape_example_com_page_14'') =
     Inr [\<lparr>res_type = JStr ''list items'', res_value = AStr ''A''\<rparr>,
          \<lparr>res_type = JStr ''list items'', res_value = AStr ''B''\<rparr>]"
  by code_simp

text \<open>
  Claim C2. When \<open>generate_api_endpoint\<close> returns an id and a configuration, the registry
  of the resulting state maps this id to this configuration, whose \<open>url\<close> and \<open>query\<close> are
  the arguments of the call and whose \<open>selectors\<close> are the value parsed from the
  collaborator's answer, which is the selector sequence \<open>s\<close> itself when the answer
  parses to the array \<open>s\<close>. A replay of the id right afterwards resolves it to this
  configuration: \<open>execute_scraping\<close> does not report an unknown id, it fetches the
  registered \<open>url\<close> and runs the registered selectors on the fetched page, the sequence
  \<open>s\<close> in its order when the selectors are the array \<open>s\<close>.
\<close>

theorem registered_endpoint_resolves_to_its_inputs:
  assumes "generate_api_endpoint ev st url query = (Inr (endpoint_id, config), st')"
  shows "cached_schemas st' endpoint_id = Some config \<and>
         cfg_url config = url \<and> cfg_query config = query \<and>
         (\<exists>structure content.
            fst (analyze_page_structure ev st url) = Inr structure \<and>
            completion ev structure query = Inr content \<and>
            json_loads ev content = Inr (cfg_selectors config)) \<and>
         (\<forall>structure content s.
            fst (analyze_page_structure ev st url) = Inr structure \<and>
            completion ev structure query = Inr content \<and>
            json_loads ev content = Inr (JArr s) \<longrightarrow> cfg_selectors config = JArr s) \<and>
         execute_scraping ev st' endpoint_id =
           (case web ev (fetches st') url of
              Inl e \<Rightarrow> (Inl e, st'\<lparr>fetches := fetches st' + 1\<rparr>)
            | Inr soup \<Rightarrow>
                (case py_iter (cfg_selectors config) of
                   Inl e \<Rightarrow> (Inl e, st'\<lparr>fetches := fetches st' + 1\<rparr>)
                 | Inr selectors \<Rightarrow>
                     (selectors_loop ev soup [] selectors, st'\<lparr>fetches := fetches st' + 1\<rparr>))) \<and>
         (\<forall>s soup.
            cfg_selectors config = JArr s \<and> web ev (fetches st') url = Inr soup \<longrightarrow>
            execute_scraping ev st' endpoint_id =
              (selectors_loop ev soup [] s, st'\<lparr>fetches := fetches st' + 1\<rparr>))"
proof -
  from assms have r: "cached_schemas st' endpoint_id = Some config"
    and u: "cfg_url config = url" and q: "cfg_query config = query"
    by (auto simp: generate_api_endpoint_def Let_def split: prod.splits sum.splits)
  from assms have p: "\<exists>structure content.
            fst (analyze_page_structure ev st url) = Inr structure \<and>
            completion ev structure query = Inr content \<and>
            json_loads ev content = Inr (cfg_selectors config)"
    by (auto simp: generate_api_endpoint_def Let_def split: prod.splits sum.splits)
  from assms have a: "\<forall>structure content s.
            fst (analyze_page_structure ev st url) = Inr structure \<and>
            completion ev structure query = Inr content \<and>
            json_loads ev content = Inr (JArr s) \<longrightarrow> cfg_selectors config = JArr s"
    by (auto simp: generate_api_endpoint_def Let_def split: prod.splits sum.splits)
  from r u have e: "execute_scraping ev st' endpoint_id =
           (case web ev (fetches st') url of
              Inl e \<Rightarrow> (Inl e, st'\<lparr>fetches := fetches st' + 1\<rparr>)
            | Inr soup \<Rightarrow>
                (case py_iter (cfg_selectors config) of
                   Inl e \<Rightarrow> (Inl e, st'\<lparr>fetches := fetches st' + 1\<rparr>)
                 | Inr selectors \<Rightarrow>
                     (selectors_loop ev soup [] selectors, st'\<lparr>fetches := fetches st' + 1\<rparr>)))"
    by (simp add: execute_scraping_def Let_def split: sum.splits)
  from r u have s: "\<forall>s soup.
            cfg_selectors config = JArr s \<and> web ev (fetches st') url = Inr soup \<longrightarrow>
            execute_scraping ev st' endpoint_id =
              (selectors_loop ev soup [] s, st'\<lparr>fetches := fetches st' + 1\<rparr>)"
    by (simp add: execute_scraping_def Let_def)
  show ?thesis
    by (intro conjI) (rule r u q p a e s)+
qed

theorem registered_endpoint_resolves_to_its_inputs_witness:
  "cached_schemas
     (snd (generate_api_endpoint array_env init_scraper ''http://example.com/page'' ''get list items''))
     ''scrape_example_com_page_14'' =
   Some \<lparr>cfg_url = ''http://example.com/page'', cfg_selectors = JArr example_selectors,
         cfg_query = ''get list items'', cfg_method = ''GET'',
         cfg_parameters = [(''format'', JStr ''json''), (''cache_timeout'', JNum 3600)]\<rparr> \<and>
   web array_env
     (fetches (snd (generate_api_endpoint array_env init_scraper ''http://example.com/page'' ''get list items'')))
     ''http://example.com/page'' = Inr example_page \<and>
   fst (execute_scraping array_env
          (snd (generate_api_endpoint array_env init_scraper ''http://example.com/page'' ''get list items''))
          ''scrape_example_com_page_14'') =
     selectors_loop array_env example_page [] example_selectors \<and>
   selectors_loop array_env example_page [] example_selectors =
     Inr [\<lparr>res_type = JStr ''list items'', res_value = AStr ''A''\<rparr>,
          \<lparr>res_type = JStr ''list items'', res_value = AStr ''B''\<rparr>]"
proof -
  let ?st' = "snd (generate_api_endpoint array_env init_scraper ''http://example.com/page'' ''get list items'')"
  let ?cfg = "\<lparr>cfg_url = ''http://example.com/page'', cfg_selectors = JArr example_selectors,
                cfg_query = ''get list items'', cfg_method = ''GET'',
                cfg_parameters = [(''format'', JStr ''json''), (''cache_timeout'', JNum 3600)]\<rparr>"
  have g: "generate_api_endpoint array_env init_scraper ''http://example.com/page'' ''get list items'' =
          (Inr (''scrape_example_com_page_14'', ?cfg), ?st')"
    using generate_array by (simp add: prod_eq_iff)
  note t = registered_endpoint_resolves_to_its_inputs [OF g]
  from t have r: "cached_schemas ?st' ''scrape_example_com_page_14'' = Some ?cfg"
    by (rule conjunct1)
  have w: "web array_env (fetches ?st') ''http://example.com/page'' = Inr example_page"
    by (simp add: array_env_def example_env_def)
  from t have "\<forall>s soup.
            cfg_selectors ?cfg = JArr s \<and> web array_env (fetches ?st') ''http://example.com/page'' = Inr soup \<longrightarrow>
            execute_scraping array_env ?st' ''scrape_example_com_page_14'' =
              (selectors_loop array_env soup [] s, ?st'\<lparr>fetches := fetches ?st' + 1\<rparr>)"
    by (elim conjE)
  with w have x: "fst (execute_scraping array_env ?st' ''scrape_example_com_page_14'') =
                    selectors_loop array_env example_page [] example_selectors"
    by simp
  from x replay_array have l: "selectors_loop array_env example_page [] example_selectors =
     Inr [\<lparr>res_type = JStr ''list items'', res_value = AStr ''A''\<rparr>,
          \<lparr>res_type = JStr ''list items'', res_value = AStr ''B''\<rparr>]"
    by simp
  show ?thesis
    by (intro conjI) (rule r w x l)+
qed

section \<open>Main content\<close>

text \<open>
  \<open>max_by\<close> returns an element of the list that no earlier element reaches and no later
  element exceeds.
\<close>

lemma max_by_split_gen:
  assumes "\<forall>y \<in> set pre. f y < f b" and "\<forall>y \<in> set mid. f y \<le> f b"
  shows "\<exists>pre' x post. pre @ b # mid @ cs = pre' @ x # post \<and> max_by f b cs = x \<and>
           (\<forall>y \<in> set pre'. f y < f x) \<and> (\<forall>y \<in> set post. f y \<le> f x)"
  using assms
proof (induction cs arbitrary: pre b mid)
  case Nil
  then show ?case by auto
next
  case (Cons a cs)
  show ?case
  proof (cases "f b < f a")
    case True
    have p: "\<forall>y \<in> set (pre @ b # mid). f y < f a"
      using Cons.prems True by fastforce
    from Cons.IH [of "pre @ b # mid" a "[]"] p
    obtain pre' x post where
      "(pre @ b # mid) @ a # [] @ cs = pre' @ x # post" "max_by f a cs = x"
      "\<forall>y \<in> set pre'. f y < f x" "\<forall>y \<in> set post. f y \<le> f x"
      by auto
    with True show ?thesis by auto
  next
    case False
    have m: "\<forall>y \<in> set (mid @ [a]). f y \<le> f b"
      using Cons.prems False by auto
    from Cons.IH [of pre b "mid @ [a]"] Cons.prems(1) m
    obtain pre' x post where
      "pre @ b # (mid @ [a]) @ cs = pre' @ x # post" "max_by f b cs = x"
      "\<forall>y \<in> set pre'. f y < f x" "\<forall>y \<in> set post. f y \<le> f x"
      by blast
    with False show ?thesis by auto
  qed
qed

lemma max_by_split:
  "\<exists>pre x post. c # cs = pre @ x # post \<and> max_by f c cs = x \<and>
     (\<forall>y \<in> set pre. f y < f x) \<and> (\<forall>y \<in> set post. f y \<le> f x)"
  using max_by_split_gen [of "[]" f c "[]" cs] by simp

lemma fallback_loop:
  "foldl (main_step soup) None content_tags =
     (case last_present_candidates soup of
        [] \<Rightarrow> None
      | c # cs \<Rightarrow> Some (max_by (\<lambda>x. length (get_text x)) c cs))"
  by (simp add: content_tags_def main_step_def last_present_candidates_def split: list.splits)

text \<open>
  What the fallback loop computes. It assigns the main content once for every container
  tag that occurs, in the order \<open>article\<close>, \<open>section\<close>, \<open>div\<close>, and does not stop at
  the first, so the last tag that occurs decides: the result is the text of the first
  largest-by-text-length element among the elements of that tag alone.
\<close>

lemma fallback_takes_last_present_tag:
  assumes "explicit_main soup = None"
  shows "(last_present_candidates soup = [] \<longrightarrow> identify_main_content soup = None) \<and>
         (last_present_candidates soup \<noteq> [] \<longrightarrow>
            (\<exists>pre x post.
               last_present_candidates soup = pre @ x # post \<and>
               (\<forall>y \<in> set pre. length (get_text y) < length (get_text x)) \<and>
               (\<forall>y \<in> set post. length (get_text y) \<le> length (get_text x)) \<and>
               identify_main_content soup = Some (get_text x)))"
proof (cases "last_present_candidates soup")
  case Nil
  with assms show ?thesis
    by (simp add: identify_main_content_def fallback_loop)
next
  case (Cons c cs)
  from max_by_split [of c cs "\<lambda>x. length (get_text x)"]
  obtain pre x post where
    s: "c # cs = pre @ x # post" and m: "max_by (\<lambda>x. length (get_text x)) c cs = x"
    and lt: "\<forall>y \<in> set pre. length (get_text y) < length (get_text x)"
    and le: "\<forall>y \<in> set post. length (get_text y) \<le> length (get_text x)"
    by blast
  from assms Cons m have "identify_main_content soup = Some (get_text x)"
    by (simp add: identify_main_content_def fallback_loop)
  with s lt le Cons have
    "\<exists>pre x post.
       last_present_candidates soup = pre @ x # post \<and>
       (\<forall>y \<in> set pre. length (get_text y) < length (get_text x)) \<and>
       (\<forall>y \<in> set post. length (get_text y) \<le> length (get_text x)) \<and>
       identify_main_content soup = Some (get_text x)"
    by metis
  with Cons show ?thesis by simp
qed

lemma mixed_page_candidates:
  "last_present_candidates mixed_page = [Tag ''div'' [] [Text NavigableString ''x'']]"
  by code_simp

lemma mixed_page_no_landmark: "explicit_main mixed_page = None"
  by code_simp

text \<open>
  Claim C5 does not hold of the code. The document
  \<^verbatim>\<open><article>a long story</article><div>x</div>\<close> has no main landmark, and the
  largest-by-text-length element among its article, section and division elements
  taken together is the article; the code returns the text of the division.
\<close>

theorem main_content_not_largest_overall:
  "explicit_main mixed_page = None \<and>
   identify_main_content mixed_page = Some ''x'' \<and>
   spec_main_content mixed_page = Some ''a long story''"
  by code_simp

text \<open>
  The text of a script is not part of the text of the division around it, so the
  second division of this page is the larger one.
\<close>

lemma script_text_is_left_out:
  "get_text (Tag ''div'' []
               [Text NavigableString ''a'',
                Tag ''script'' [] [Text Script ''var x=1;''],
                Text NavigableString ''b'']) = ''ab'' \<and>
   get_text (Tag ''script'' [] [Text Script ''var x=1;'']) = ''var x=1;'' \<and>
   identify_main_content script_page = Some ''abcd''"
  by code_simp

section \<open>Extraction\<close>

lemma execute_sparse:
  "fst (execute_scraping example_env sparse_scraper ''sparse'') =
     Inr [\<lparr>res_type = JStr ''items'', res_value = AStr ''A''\<rparr>,
          \<lparr>res_type = JStr ''links'', res_value = AStr ''/x''\<rparr>]"
  by code_simp

lemma element_result_truthy:
  assumes "element_result selector results x = Inr results'"
      and "\<forall>r \<in> set results. truthy (Some (res_value r))"
  shows "\<forall>r \<in> set results'. truthy (Some (res_value r))"
  using assms
  by (auto simp: element_result_def split: sum.splits option.splits if_splits)

lemma elements_loop_truthy:
  assumes "elements_loop selector results xs = Inr results'"
      and "\<forall>r \<in> set results. truthy (Some (res_value r))"
  shows "\<forall>r \<in> set results'. truthy (Some (res_value r))"
  using assms
proof (induction xs arbitrary: results)
  case Nil
  then show ?case by simp
next
  case (Cons x xs)
  from Cons.prems(1) obtain mid where
    m: "element_result selector results x = Inr mid" and
    l: "elements_loop selector mid xs = Inr results'"
    by (auto split: sum.splits)
  from element_result_truthy [OF m Cons.prems(2)] Cons.IH [OF l] show ?case by blast
qed

lemma selectors_loop_truthy:
  assumes "selectors_loop ev soup results ss = Inr results'"
      and "\<forall>r \<in> set results. truthy (Some (res_value r))"
  shows "\<forall>r \<in> set results'. truthy (Some (res_value r))"
  using assms
proof (induction ss arbitrary: results)
  case Nil
  then show ?case by simp
next
  case (Cons s ss)
  from Cons.prems(1) obtain mid where
    m: "selector_step ev soup results s = Inr mid" and
    l: "selectors_loop ev soup mid ss = Inr results'"
    by (auto split: sum.splits)
  from m obtain elements where "elements_loop s results elements = Inr mid"
    by (auto simp: selector_step_def split: sum.splits)
  from elements_loop_truthy [OF this Cons.prems(2)] Cons.IH [OF l] show ?case by blast
qed

text \<open>
  Every entry of a result that \<open>execute_scraping\<close> returns has a value that is neither
  undefined nor empty, and an extracted value that is undefined or empty leaves the
  results as they are.
\<close>

lemma results_hold_no_empty_value:
  assumes "execute_scraping ev st endpoint_id = (Inr results, st')"
  shows "\<forall>r \<in> set results. truthy (Some (res_value r))"
proof -
  from assms obtain soup selectors where "selectors_loop ev soup [] selectors = Inr results"
    by (auto simp: execute_scraping_def Let_def split: option.splits sum.splits)
  from selectors_loop_truthy [OF this] show ?thesis by simp
qed

lemma empty_value_is_dropped:
  assumes "extract_value selector element = Inr v" and "\<not> truthy v"
  shows "element_result selector acc element = Inr acc"
  using assms by (cases v) (auto simp: element_result_def)

text \<open>
  Claim C7 does not hold of the code. A selector of the \<open>xpath\<close> kind matches strings of
  the document, not elements. When such a selector asks for an attribute other than
  \<open>text\<close>, as the prompt allows, the attribute of the first matched string is undefined,
  and instead of contributing no entry the string makes \<open>element.get\<close> raise
  \<open>AttributeError\<close>, which ends the replay.
\<close>

theorem attribute_of_matched_string_raises:
  assumes "cached_schemas st endpoint_id = Some config"
      and "web ev (fetches st) (cfg_url config) = Inr soup"
      and "cfg_selectors config = JArr (selector # rest)"
      and "py_getitem selector ''type'' = Inr t" and "t \<noteq> JStr ''css''"
      and "py_getitem selector ''selector'' = Inr pattern"
      and "regex_find ev pattern soup = Inr (Text k s # xs)"
      and "py_getitem selector ''attribute'' = Inr attribute" and "attribute \<noteq> JStr ''text''"
  shows "extract_value selector (Text k s) = Inl AttributeError \<and>
         element_result selector [] (Text k s) = Inl AttributeError \<and>
         fst (execute_scraping ev st endpoint_id) = Inl AttributeError"
proof -
  from assms(8,9) have x: "extract_value selector (Text k s) = Inl AttributeError"
    by (simp add: extract_value_def)
  then have r: "element_result selector [] (Text k s) = Inl AttributeError"
    by (simp add: element_result_def)
  from assms(4,5,6,7) have "select_elements ev soup selector = Inr (Text k s # xs)"
    by (simp add: select_elements_def)
  with r have "selector_step ev soup [] selector = Inl AttributeError"
    by (simp add: selector_step_def)
  with assms(1,2,3) have "fst (execute_scraping ev st endpoint_id) = Inl AttributeError"
    by (simp add: execute_scraping_def Let_def)
  with x r show ?thesis by simp
qed

theorem attribute_of_matched_string_raises_witness:
  "cached_schemas xpath_scraper ''xpath'' = Some xpath_config \<and>
   web example_env (fetches xpath_scraper) (cfg_url xpath_config) = Inr example_page \<and>
   regex_find example_env (JStr ''A'') example_page = Inr [Text NavigableString ''A''] \<and>
   extract_value xpath_selector (Text NavigableString ''A'') = Inl AttributeError \<and>
   fst (execute_scraping example_env xpath_scraper ''xpath'') = Inl AttributeError"
proof -
  have c: "cached_schemas xpath_scraper ''xpath'' = Some xpath_config"
    by (simp add: xpath_scraper_def)
  have w: "web example_env (fetches xpath_scraper) (cfg_url xpath_config) = Inr example_page"
    by (simp add: example_env_def xpath_config_def)
  have s: "cfg_selectors xpath_config = JArr (xpath_selector # [])"
    by (simp add: xpath_config_def)
  have ty: "py_getitem xpath_selector ''type'' = Inr (JStr ''xpath'')"
    by (simp add: xpath_selector_def)
  have nc: "JStr ''xpath'' \<noteq> JStr ''css''" by simp
  have pa: "py_getitem xpath_selector ''selector'' = Inr (JStr ''A'')"
    by (simp add: xpath_selector_def)
  have f: "regex_find example_env (JStr ''A'') example_page = Inr (Text NavigableString ''A'' # [])"
    by code_simp
  have at: "py_getitem xpath_selector ''attribute'' = Inr (JStr ''href'')"
    by (simp add: xpath_selector_def)
  have nt: "JStr ''href'' \<noteq> JStr ''text''" by simp
  note t = attribute_of_matched_string_raises [OF c w s ty nc pa f at nt]
  from t have x: "extract_value xpath_selector (Text NavigableString ''A'') = Inl AttributeError"
    by (rule conjunct1)
  from t have e: "fst (execute_scraping example_env xpath_scraper ''xpath'') = Inl AttributeError"
    by (elim conjE)
  show ?thesis
    by (intro conjI) (rule c w f x e)+
qed

section \<open>The stored selectors\<close>

text \<open>
  Claim C1 does not hold of the code. The value stored as \<open>selectors\<close> is the whole object
  that \<open>json.loads\<close> returns, not its \<open>selectors\<close> array; a replay of such an endpoint
  iterates the keys of the object and fails with a \<open>TypeError\<close> at the first of them as
  soon as the page has been fetched.
\<close>

theorem stored_selectors_are_the_whole_payload:
  assumes "generate_api_endpoint ev st url query = (Inr (endpoint_id, config), st')"
      and "fst (analyze_page_structure ev st url) = Inr structure"
      and "completion ev structure query = Inr content"
      and "json_loads ev content = Inr (JObj payload)"
      and "map_of payload ''selectors'' = Some (JArr sels)"
  shows "cfg_selectors config = JObj payload \<and> cfg_selectors config \<noteq> JArr sels \<and>
         (\<forall>soup. web ev (fetches st') url = Inr soup \<longrightarrow>
            fst (execute_scraping ev st' endpoint_id) = Inl TypeError)"
proof -
  from assms have c: "cfg_selectors config = JObj payload" and u: "cfg_url config = url"
    and r: "cached_schemas st' endpoint_id = Some config"
    by (auto simp: generate_api_endpoint_def Let_def split: prod.splits sum.splits)
  from assms(5) obtain k v rest where p: "payload = (k, v) # rest"
    by (cases payload) auto
  have "selectors_loop ev soup [] (map (\<lambda>kv. JStr (fst kv)) payload) = Inl TypeError" for soup
    by (simp add: p selector_step_def select_elements_def)
  with c u r show ?thesis
    by (simp add: execute_scraping_def Let_def)
qed

lemma analyze_example:
  "fst (analyze_page_structure example_env init_scraper ''http://example.com/page'') =
     Inr \<lparr>title = Some ''T'', headings = [''Hi''], main_content = Some ''HiAB'',
          navigation = None,
          schema = \<lparr>schema_elements = [],
                    schema_lists = [\<lparr>list_type = ''ul'', items_count = 2, list_sample = Some ''A''\<rparr>],
                    schema_tables = [], schema_forms = []\<rparr>\<rparr>"
  by code_simp

lemma fetches_after_generate_example:
  "fetches (snd (generate_api_endpoint example_env init_scraper ''http://example.com/page'' ''get list items'')) = 1"
  by code_simp

theorem stored_selectors_are_the_whole_payload_witness:
  "fst (generate_api_endpoint example_env init_scraper ''http://example.com/page'' ''get list items'') =
     Inr (''scrape_example_com_page_14'',
          \<lparr>cfg_url = ''http://example.com/page'', cfg_selectors = JObj example_payload,
           cfg_query = ''get list items'', cfg_method = ''GET'',
           cfg_parameters = [(''format'', JStr ''json''), (''cache_timeout'', JNum 3600)]\<rparr>) \<and>
   map_of example_payload ''selectors'' = Some (JArr example_selectors) \<and>
   JObj example_payload \<noteq> JArr example_selectors \<and>
   fst (execute_scraping example_env
          (snd (generate_api_endpoint example_env init_scraper ''http://example.com/page'' ''get list items''))
          ''scrape_example_com_page_14'') = Inl TypeError"
proof -
  have g: "generate_api_endpoint example_env init_scraper ''http://example.com/page'' ''get list items'' =
          (Inr (''scrape_example_com_page_14'',
                \<lparr>cfg_url = ''http://example.com/page'', cfg_selectors = JObj example_payload,
                 cfg_query = ''get list items'', cfg_method = ''GET'',
                 cfg_parameters = [(''format'', JStr ''json''), (''cache_timeout'', JNum 3600)]\<rparr>),
           snd (generate_api_endpoint example_env init_scraper ''http://example.com/page'' ''get list items''))"
    using generate_example by (simp add: prod_eq_iff)
  have c: "completion example_env s ''get list items'' = Inr ''<payload>''" for s
    by (simp add: example_env_def)
  have j: "json_loads example_env ''<payload>'' = Inr (JObj example_payload)"
    by (simp add: example_env_def)
  have m: "map_of example_payload ''selectors'' = Some (JArr example_selectors)"
    by (simp add: example_payload_def)
  have w: "web example_env
             (fetches (snd (generate_api_endpoint example_env init_scraper ''http://example.com/page'' ''get list items'')))
             ''http://example.com/page'' = Inr example_page"
    by (simp add: example_env_def)
  from stored_selectors_are_the_whole_payload [OF g analyze_example c j m] w
  have "fst (execute_scraping example_env
          (snd (generate_api_endpoint example_env init_scraper ''http://example.com/page'' ''get list items''))
          ''scrape_example_com_page_14'') = Inl TypeError"
    by blast
  with generate_example m show ?thesis by simp
qed

section \<open>Endpoint ids\<close>

lemma split_on_no_occurrence:
  assumes "\<not> sublist sep s"
  shows "split_on sep s = [s]"
  using assms
proof (induction s)
  case Nil
  then show ?case by simp
next
  case (Cons c cs)
  from Cons.prems have np: "\<not> prefix sep (c # cs)" and ns: "\<not> sublist sep cs"
    by (auto simp: sublist_Cons_right)
  with Cons.IH show ?case by simp
qed

lemma split_on_after_scheme:
  assumes "CHR ''/'' \<notin> set scheme"
  shows "split_on ''//'' (scheme @ ''//'' @ rest) = scheme # split_on ''//'' rest"
  using assms
proof (induction scheme)
  case Nil
  then show ?case by simp
next
  case (Cons c cs)
  then have "c \<noteq> CHR ''/''" by auto
  with Cons show ?case by simp
qed

lemma split_on_first_piece:
  "\<exists>ps. split_on ''//'' s = before_dslash s # ps"
proof (induction s rule: before_dslash.induct)
  case (1 a b r)
  show ?case
  proof (cases "a = CHR ''/'' \<and> b = CHR ''/''")
    case True
    then show ?thesis by simp
  next
    case False
    with 1 obtain ps where "split_on ''//'' (b # r) = before_dslash (b # r) # ps" by blast
    with False show ?thesis by auto
  qed
qed simp_all

lemma before_dslash_no_occurrence:
  assumes "\<not> sublist ''//'' s"
  shows "before_dslash s = s"
  using assms
proof (induction s rule: before_dslash.induct)
  case (1 a b r)
  from "1.prems" have np: "\<not> (a = CHR ''/'' \<and> b = CHR ''/'')" and ns: "\<not> sublist ''//'' (b # r)"
    by (auto simp: sublist_Cons_right)
  with "1.IH" show ?case by simp
qed simp_all

lemma sanitize_chars: "\<forall>c \<in> set (sanitize s). is_alnum c \<or> c = CHR ''_''"
  by (auto simp: sanitize_def)

lemma is_digit_digit_char: "d < 10 \<Longrightarrow> is_digit (digit_char d)"
  by (simp add: is_digit_def digit_char_def Let_def)

lemma digits_of_digits: "\<forall>c \<in> set (digits_of n). is_digit c"
proof (induction n rule: digits_of.induct)
  case (1 n)
  show ?case
  proof (cases "n < 10")
    case True
    then show ?thesis by (subst digits_of.simps) (simp add: is_digit_digit_char)
  next
    case False
    with 1 have "\<forall>c \<in> set (digits_of (n div 10)). is_digit c" by simp
    with False show ?thesis by (subst digits_of.simps) (simp add: is_digit_digit_char)
  qed
qed

lemma digits_of_length: "0 < k \<Longrightarrow> n < 10 ^ k \<Longrightarrow> 0 < length (digits_of n) \<and> length (digits_of n) \<le> k"
proof (induction n arbitrary: k rule: digits_of.induct)
  case (1 n)
  show ?case
  proof (cases "n < 10")
    case True
    with "1.prems" show ?thesis by (subst (1 2) digits_of.simps) simp
  next
    case False
    with "1.prems" have k: "1 < k" by (cases "k = 1") auto
    then obtain j where j: "k = Suc j" "0 < j" by (cases k) auto
    with "1.prems" have "n div 10 < 10 ^ j"
      by (simp add: less_mult_imp_div_less mult.commute)
    with "1.IH" [OF False \<open>0 < j\<close>] have "length (digits_of (n div 10)) \<le> j" by simp
    with False j show ?thesis by (subst (1 2) digits_of.simps) simp
  qed
qed

text \<open>
  Claim C4, as the code has it. For a URL \<open>scheme//rest\<close> whose scheme contains no slash,
  the id is \<open>scrape_\<close>, then the sanitized piece of \<open>rest\<close> before its first \<open>//\<close> (all of
  \<open>rest\<close> when it contains none), then \<open>_\<close> and the decimal digits of the hash of the
  query modulo 10000. The sanitized piece consists of letters, digits and underscores;
  the fingerprint is below 10000 and printed with one to four digits.
\<close>

theorem endpoint_id_from_piece_after_scheme:
  assumes "CHR ''/'' \<notin> set scheme"
  shows "generate_endpoint_id ev (scheme @ ''//'' @ rest) query =
           Inr (''scrape_'' @ sanitize (before_dslash rest) @ ''_'' @
                digits_of (nat (py_hash ev query mod 10000))) \<and>
         (\<not> sublist ''//'' rest \<longrightarrow> before_dslash rest = rest) \<and>
         (\<forall>c \<in> set (sanitize (before_dslash rest)). is_alnum c \<or> c = CHR ''_'') \<and>
         nat (py_hash ev query mod 10000) < 10000 \<and>
         (\<forall>c \<in> set (digits_of (nat (py_hash ev query mod 10000))). is_digit c) \<and>
         0 < length (digits_of (nat (py_hash ev query mod 10000))) \<and>
         length (digits_of (nat (py_hash ev query mod 10000))) \<le> 4"
proof -
  obtain ps where "split_on ''//'' rest = before_dslash rest # ps"
    using split_on_first_piece by blast
  with split_on_after_scheme [OF assms, of rest]
  have "split_on ''//'' (scheme @ ''//'' @ rest) = scheme # before_dslash rest # ps"
    by simp
  then have id: "generate_endpoint_id ev (scheme @ ''//'' @ rest) query =
           Inr (''scrape_'' @ sanitize (before_dslash rest) @ ''_'' @
                digits_of (nat (py_hash ev query mod 10000)))"
    by (simp add: generate_endpoint_id_def py_split_def Let_def)
  have b: "nat (py_hash ev query mod 10000) < 10000"
    by simp
  from digits_of_length [of 4 "nat (py_hash ev query mod 10000)"] b
  have l: "0 < length (digits_of (nat (py_hash ev query mod 10000))) \<and>
           length (digits_of (nat (py_hash ev query mod 10000))) \<le> 4"
    by simp
  from id b l before_dslash_no_occurrence [of rest] sanitize_chars digits_of_digits
  show ?thesis by blast
qed

theorem endpoint_id_from_piece_after_scheme_witness:
  "CHR ''/'' \<notin> set ''http:'' \<and> \<not> sublist ''//'' ''example.com/page'' \<and>
   generate_endpoint_id example_env ''http://example.com/page'' ''get list items'' =
     Inr ''scrape_example_com_page_14''"
proof -
  have s: "CHR ''/'' \<notin> set ''http:''" by simp
  have n: "\<not> sublist ''//'' ''example.com/page''" by code_simp
  note t = endpoint_id_from_piece_after_scheme [OF s, of example_env "''example.com/page''" "''get list items''"]
  from t n have "generate_endpoint_id example_env (''http:'' @ ''//'' @ ''example.com/page'') ''get list items'' =
           Inr (''scrape_'' @ sanitize ''example.com/page'' @ ''_'' @
                digits_of (nat (py_hash example_env ''get list items'' mod 10000)))"
    by simp
  moreover have "sanitize ''example.com/page'' = ''example_com_page''" by code_simp
  moreover have "digits_of (nat (py_hash example_env ''get list items'' mod 10000)) = ''14''" by code_simp
  ultimately show ?thesis using s n by simp
qed

text \<open>
  Claim C4, as stated, fails for a URL with a second \<open>//\<close>: the id is derived from the
  piece between the first and the second separator, not from the whole URL without its
  scheme prefix.
\<close>

theorem endpoint_id_stops_at_second_separator:
  "generate_endpoint_id example_env ''http://a.b//c'' ''q'' = Inr ''scrape_a_b_1'' \<and>
   spec_endpoint_id example_env ''http://a.b//c'' ''q'' = ''scrape_a_b__c_1''"
  by code_simp

section \<open>SchemaCache\<close>

lemma analyze_uncached_state:
  "snd (analyze_uncached ev st url) = st\<lparr>fetches := fetches st + 1\<rparr>"
  by (simp add: analyze_uncached_def Let_def split: sum.splits)

lemma analyze_hit:
  assumes "map_of (lru st) url = Some s"
  shows "analyze_page_structure ev st url =
           (Inr s, st\<lparr>lru := (url, s) # filter (\<lambda>kv. fst kv \<noteq> url) (lru st)\<rparr>)"
  using assms by (simp add: analyze_page_structure_def)

lemma analyze_miss:
  assumes "map_of (lru st) url = None"
  shows "analyze_page_structure ev st url =
           (case fst (analyze_uncached ev st url) of
              Inl e \<Rightarrow> (Inl e, st\<lparr>fetches := fetches st + 1\<rparr>)
            | Inr s \<Rightarrow> (Inr s, st\<lparr>fetches := fetches st + 1, lru := lru_store url s (lru st)\<rparr>))"
proof -
  obtain r st' where u: "analyze_uncached ev st url = (r, st')"
    by (cases "analyze_uncached ev st url")
  with analyze_uncached_state [of ev st url] have "st' = st\<lparr>fetches := fetches st + 1\<rparr>"
    by simp
  with assms u show ?thesis
    by (simp add: analyze_page_structure_def split: sum.splits)
qed

lemma key_filter_shorter:
  assumes "map_of xs k = Some v"
  shows "length (filter (\<lambda>kv. fst kv \<noteq> k) xs) < length xs"
proof -
  from assms have "(k, v) \<in> set xs" by (rule map_of_SomeD)
  then show ?thesis by (intro length_filter_less [of "(k, v)"]) auto
qed

lemma cache_ok_init: "cache_ok init_scraper"
  by (simp add: cache_ok_def init_scraper_def)

lemma analyze_keeps_cache_ok:
  assumes "cache_ok st"
  shows "cache_ok (snd (analyze_page_structure ev st u))"
proof (cases "map_of (lru st) u")
  case (Some v)
  from key_filter_shorter [OF Some] assms
  have "length (filter (\<lambda>kv. fst kv \<noteq> u) (lru st)) < maxsize"
    by (simp add: cache_ok_def)
  moreover have "u \<notin> fst ` set (filter (\<lambda>kv. fst kv \<noteq> u) (lru st))"
    by auto
  moreover from assms have "distinct (map fst (filter (\<lambda>kv. fst kv \<noteq> u) (lru st)))"
    by (simp add: cache_ok_def distinct_map_filter)
  ultimately show ?thesis
    by (simp add: analyze_hit [OF Some] cache_ok_def)
next
  case None
  then have nk: "u \<notin> fst ` set (lru st)"
    by (simp add: map_of_eq_None_iff)
  then have nb: "u \<notin> fst ` set (butlast (lru st))"
    by (auto dest: in_set_butlastD)
  from assms have db: "distinct (map fst (butlast (lru st)))"
    by (simp add: cache_ok_def map_butlast distinct_butlast)
  show ?thesis
  proof (cases "fst (analyze_uncached ev st u)")
    case (Inl e)
    with assms show ?thesis
      by (simp add: analyze_miss [OF None] cache_ok_def)
  next
    case (Inr v)
    with assms nk nb db show ?thesis
      by (auto simp: analyze_miss [OF None] cache_ok_def lru_store_def maxsize_def)
  qed
qed

lemma analyze_many_keeps_cache_ok:
  "cache_ok st \<Longrightarrow> cache_ok (analyze_many ev st us)"
  by (induction us arbitrary: st) (simp_all add: analyze_keeps_cache_ok)

lemma generate_keeps_cache_ok:
  assumes "cache_ok st"
  shows "cache_ok (snd (generate_api_endpoint ev st url query))"
proof -
  have "lru (snd (generate_api_endpoint ev st url query)) =
          lru (snd (analyze_page_structure ev st url))"
    by (cases "analyze_page_structure ev st url")
       (auto simp: generate_api_endpoint_def Let_def split: sum.splits)
  with analyze_keeps_cache_ok [OF assms, of ev url] show ?thesis
    by (simp add: cache_ok_def)
qed

lemma execute_keeps_cache_ok:
  assumes "cache_ok st"
  shows "cache_ok (snd (execute_scraping ev st endpoint_id))"
  using assms
  by (simp add: execute_scraping_def cache_ok_def Let_def split: option.splits sum.splits)

lemma held_behind_front:
  assumes "lru st = (url, s) # post"
  shows "held_behind url s A st"
  unfolding held_behind_def
proof (intro exI conjI)
  from assms show "lru st = [] @ (url, s) # post" by simp
  show "fst ` set [] \<subseteq> A" by simp
qed

lemma held_behind_lookup:
  assumes "held_behind url s A st" and "url \<notin> A"
  shows "map_of (lru st) url = Some s"
proof -
  from assms obtain pre post where
    l: "lru st = pre @ (url, s) # post" and p: "fst ` set pre \<subseteq> A"
    by (auto simp: held_behind_def)
  with assms(2) have "url \<notin> fst ` set pre" by auto
  then have "map_of pre url = None" by (simp add: map_of_eq_None_iff)
  with l show ?thesis by (simp add: map_add_def)
qed

lemma held_behind_step:
  assumes ok: "cache_ok st" and held: "held_behind url s A st"
      and A: "finite A" "url \<notin> A" "card A < maxsize"
      and u: "u \<in> A \<or> u = url"
  shows "held_behind url s A (snd (analyze_page_structure ev st u))"
proof -
  from held obtain pre post where
    l: "lru st = pre @ (url, s) # post" and p: "fst ` set pre \<subseteq> A"
    by (auto simp: held_behind_def)
  note cached = held_behind_lookup [OF held A(2)]
  show ?thesis
  proof (cases "map_of (lru st) u")
    case (Some v)
    show ?thesis
    proof (cases "u = url")
      case True
      with Some cached have "v = s" by simp
      with True analyze_hit [OF Some, of ev]
      have "lru (snd (analyze_page_structure ev st u)) =
              (url, s) # filter (\<lambda>kv. fst kv \<noteq> url) (lru st)"
        by simp
      then show ?thesis by (rule held_behind_front)
    next
      case False
      with u have uA: "u \<in> A" by simp
      from False have "lru (snd (analyze_page_structure ev st u)) =
              ((u, v) # filter (\<lambda>kv. fst kv \<noteq> u) pre) @ (url, s) # filter (\<lambda>kv. fst kv \<noteq> u) post"
        by (simp add: analyze_hit [OF Some] l)
      moreover from p uA have "fst ` set ((u, v) # filter (\<lambda>kv. fst kv \<noteq> u) pre) \<subseteq> A"
        by auto
      ultimately show ?thesis
        unfolding held_behind_def by blast
    qed
  next
    case None
    with cached have ne: "u \<noteq> url" by auto
    with u have uA: "u \<in> A" by simp
    from None have nk: "u \<notin> fst ` set (lru st)"
      by (simp add: map_of_eq_None_iff)
    show ?thesis
    proof (cases "fst (analyze_uncached ev st u)")
      case (Inl e)
      with held show ?thesis
        by (simp add: analyze_miss [OF None] held_behind_def)
    next
      case (Inr v)
      show ?thesis
      proof (cases "maxsize \<le> length (lru st)")
        case False
        with Inr have "lru (snd (analyze_page_structure ev st u)) = ((u, v) # pre) @ (url, s) # post"
          by (simp add: analyze_miss [OF None] lru_store_def l)
        moreover from p uA have "fst ` set ((u, v) # pre) \<subseteq> A" by auto
        ultimately show ?thesis
          unfolding held_behind_def by blast
      next
        case True
        from ok l have "distinct (map fst pre)"
          by (simp add: cache_ok_def)
        then have "length pre = card (fst ` set pre)"
          by (metis distinct_card length_map set_map)
        moreover from nk l p have "fst ` set pre \<subseteq> A - {u}" by auto
        then have "card (fst ` set pre) \<le> card (A - {u})"
          using A(1) by (intro card_mono) auto
        moreover from uA A(1) have "card (A - {u}) < card A"
          by (intro card_Diff1_less) auto
        ultimately have "length pre + 1 < maxsize" using A(3) by simp
        with True l have "post \<noteq> []" by auto
        with l have "butlast (lru st) = pre @ (url, s) # butlast post"
          by (simp add: butlast_append)
        with True Inr have "lru (snd (analyze_page_structure ev st u)) =
                              ((u, v) # pre) @ (url, s) # butlast post"
          by (simp add: analyze_miss [OF None] lru_store_def)
        moreover from p uA have "fst ` set ((u, v) # pre) \<subseteq> A" by auto
        ultimately show ?thesis
          unfolding held_behind_def by blast
      qed
    qed
  qed
qed

lemma held_behind_many:
  assumes "cache_ok st" and "held_behind url s A st"
      and "finite A" "url \<notin> A" "card A < maxsize"
      and "set us \<subseteq> insert url A"
  shows "held_behind url s A (analyze_many ev st us)"
  using assms
proof (induction us arbitrary: st)
  case Nil
  then show ?case by simp
next
  case (Cons u us)
  from Cons.prems(6) have u: "u \<in> A \<or> u = url" by auto
  note h = held_behind_step [OF Cons.prems(1,2,3,4,5) u, of ev]
  note k = analyze_keeps_cache_ok [OF Cons.prems(1), of ev u]
  from Cons.prems(6) have "set us \<subseteq> insert url A" by auto
  from Cons.IH [OF k h Cons.prems(3,4,5) this] show ?case by simp
qed

lemma analyze_success_held:
  assumes "analyze_page_structure ev st url = (Inr s, st1)"
  shows "held_behind url s A st1"
proof (cases "map_of (lru st) url")
  case (Some v)
  with assms analyze_hit [OF Some, of ev]
  have "lru st1 = (url, s) # filter (\<lambda>kv. fst kv \<noteq> url) (lru st)"
    by auto
  then show ?thesis by (rule held_behind_front)
next
  case None
  with assms have "lru st1 = lru_store url s (lru st)"
    by (auto simp: analyze_miss [OF None] split: sum.splits)
  then obtain post where "lru st1 = (url, s) # post"
    by (auto simp: lru_store_def split: if_splits)
  then show ?thesis by (rule held_behind_front)
qed

lemma analyze_cached_again:
  assumes "held_behind url s A st" and "url \<notin> A"
  shows "fst (analyze_page_structure ev st url) = Inr s \<and>
         fetches (snd (analyze_page_structure ev st url)) = fetches st"
  by (simp add: analyze_hit [OF held_behind_lookup [OF assms]])

lemma generate_cache_state:
  "lru (snd (generate_api_endpoint ev st url query)) = lru (snd (analyze_page_structure ev st url)) \<and>
   fetches (snd (generate_api_endpoint ev st url query)) = fetches (snd (analyze_page_structure ev st url))"
  by (cases "analyze_page_structure ev st url")
     (auto simp: generate_api_endpoint_def Let_def split: sum.splits)

lemma held_behind_same_cache:
  "lru st' = lru st \<Longrightarrow> held_behind url s A st \<Longrightarrow> held_behind url s A st'"
  by (simp add: held_behind_def)

lemma hit_keeps_entries:
  assumes "distinct (map fst xs)" and "map_of xs k = Some v"
  shows "set ((k, v) # filter (\<lambda>kv. fst kv \<noteq> k) xs) = set xs"
proof (intro set_eqI iffI)
  fix kv
  assume "kv \<in> set ((k, v) # filter (\<lambda>kv. fst kv \<noteq> k) xs)"
  then have "kv = (k, v) \<or> kv \<in> set xs" by auto
  with map_of_SomeD [OF assms(2)] show "kv \<in> set xs" by blast
next
  fix kv
  assume m: "kv \<in> set xs"
  obtain a b where kv: "kv = (a, b)" by (cases kv)
  show "kv \<in> set ((k, v) # filter (\<lambda>kv. fst kv \<noteq> k) xs)"
  proof (cases "a = k")
    case True
    from m kv True have "(k, b) \<in> set xs" by simp
    from map_of_is_SomeI [OF assms(1) this] assms(2) have "b = v" by simp
    with True kv show ?thesis by simp
  next
    case False
    with m kv show ?thesis by simp
  qed
qed

text \<open>
  Claim C8. Let the cache be well formed and let an analysis of \<open>url\<close> return the structure
  \<open>s\<close>. Then an analysis of \<open>url\<close> right after it returns \<open>s\<close> again and issues no fetch, so
  that the two calls issue one fetch when \<open>url\<close> was not cached before (and none when it
  was). The same holds after analyses of any list of URLs with fewer than 100 distinct
  members, whatever they return. The cache is keyed by the URL alone: a second endpoint
  generation for \<open>url\<close>, with any query, issues no fetch and gets \<open>s\<close>. Entries leave the
  cache under capacity pressure only: a miss adds its entry in front, dropping the
  last, least recently used entry only if the cache already holds 100 entries, and a hit
  keeps all entries.
\<close>

theorem analysis_is_cached_by_url:
  assumes "cache_ok st"
      and "analyze_page_structure ev st url = (Inr s, st1)"
      and "card (set urls) < 100"
  shows "fst (analyze_page_structure ev st1 url) = Inr s \<and>
         fetches (snd (analyze_page_structure ev st1 url)) = fetches st1 \<and>
         (map_of (lru st) url = None \<longrightarrow> fetches st1 = fetches st + 1) \<and>
         (map_of (lru st) url \<noteq> None \<longrightarrow> fetches st1 = fetches st) \<and>
         fst (analyze_page_structure ev (analyze_many ev st1 urls) url) = Inr s \<and>
         fetches (snd (analyze_page_structure ev (analyze_many ev st1 urls) url)) =
           fetches (analyze_many ev st1 urls) \<and>
         (\<forall>q1 q2.
            fst (analyze_page_structure ev (snd (generate_api_endpoint ev st url q1)) url) = Inr s \<and>
            fetches (snd (generate_api_endpoint ev (snd (generate_api_endpoint ev st url q1)) url q2)) =
              fetches (snd (generate_api_endpoint ev st url q1))) \<and>
         (map_of (lru st) url = None \<longrightarrow>
            lru st1 = (if length (lru st) < 100 then (url, s) # lru st
                       else (url, s) # butlast (lru st))) \<and>
         (map_of (lru st) url \<noteq> None \<longrightarrow> set (lru st1) = set (lru st))"
proof -
  let ?A = "set urls - {url}"
  have fin: "finite ?A" and notin: "url \<notin> ?A" by auto
  have "card ?A \<le> card (set urls)" by (intro card_mono) auto
  with assms(3) have small: "card ?A < maxsize" by (simp add: maxsize_def)
  have sub: "set urls \<subseteq> insert url ?A" by auto
  from assms(2) have st1: "st1 = snd (analyze_page_structure ev st url)" by simp
  with analyze_keeps_cache_ok [OF assms(1), of ev url] have ok1: "cache_ok st1" by simp
  note held1 = analyze_success_held [OF assms(2), of ?A]
  note again = analyze_cached_again [OF held1 notin, of ev]
  note later = analyze_cached_again [OF held_behind_many [OF ok1 held1 fin notin small sub] notin, of ev ev]
  have miss: "map_of (lru st) url = None \<longrightarrow>
                fetches st1 = fetches st + 1 \<and>
                lru st1 = (if length (lru st) < 100 then (url, s) # lru st
                           else (url, s) # butlast (lru st))"
  proof
    assume n: "map_of (lru st) url = None"
    with assms(2) show "fetches st1 = fetches st + 1 \<and>
                lru st1 = (if length (lru st) < 100 then (url, s) # lru st
                           else (url, s) # butlast (lru st))"
      by (auto simp: analyze_miss [OF n] lru_store_def maxsize_def split: sum.splits)
  qed
  have hit: "map_of (lru st) url \<noteq> None \<longrightarrow>
               fetches st1 = fetches st \<and> set (lru st1) = set (lru st)"
  proof
    assume "map_of (lru st) url \<noteq> None"
    then obtain v where v: "map_of (lru st) url = Some v" by auto
    with assms(2) analyze_hit [OF v, of ev]
    have e: "s = v" "st1 = st\<lparr>lru := (url, v) # filter (\<lambda>kv. fst kv \<noteq> url) (lru st)\<rparr>"
      by auto
    from assms(1) have "distinct (map fst (lru st))" by (simp add: cache_ok_def)
    from hit_keeps_entries [OF this v] e
    show "fetches st1 = fetches st \<and> set (lru st1) = set (lru st)" by simp
  qed
  have queries:
    "fst (analyze_page_structure ev (snd (generate_api_endpoint ev st url q1)) url) = Inr s \<and>
     fetches (snd (generate_api_endpoint ev (snd (generate_api_endpoint ev st url q1)) url q2)) =
       fetches (snd (generate_api_endpoint ev st url q1))" for q1 q2
  proof -
    let ?g = "snd (generate_api_endpoint ev st url q1)"
    from generate_cache_state [of ev st url q1] st1 have "lru ?g = lru st1" by simp
    from held_behind_same_cache [OF this held1] have "held_behind url s ?A ?g" .
    from analyze_cached_again [OF this notin, of ev] generate_cache_state [of ev ?g url q2]
    show ?thesis by simp
  qed
  from again have a1: "fst (analyze_page_structure ev st1 url) = Inr s"
    and a2: "fetches (snd (analyze_page_structure ev st1 url)) = fetches st1"
    by simp_all
  from later have l1: "fst (analyze_page_structure ev (analyze_many ev st1 urls) url) = Inr s"
    and l2: "fetches (snd (analyze_page_structure ev (analyze_many ev st1 urls) url)) =
               fetches (analyze_many ev st1 urls)"
    by simp_all
  from miss have m1: "map_of (lru st) url = None \<longrightarrow> fetches st1 = fetches st + 1"
    and m2: "map_of (lru st) url = None \<longrightarrow>
               lru st1 = (if length (lru st) < 100 then (url, s) # lru st
                          else (url, s) # butlast (lru st))"
    by simp_all
  from hit have h1: "map_of (lru st) url \<noteq> None \<longrightarrow> fetches st1 = fetches st"
    and h2: "map_of (lru st) url \<noteq> None \<longrightarrow> set (lru st1) = set (lru st)"
    by simp_all
  have q: "\<forall>q1 q2.
            fst (analyze_page_structure ev (snd (generate_api_endpoint ev st url q1)) url) = Inr s \<and>
            fetches (snd (generate_api_endpoint ev (snd (generate_api_endpoint ev st url q1)) url q2)) =
              fetches (snd (generate_api_endpoint ev st url q1))"
    by (intro allI) (rule queries)
  show ?thesis
    by (intro conjI; fact)
qed

lemma example_cached_after_analysis:
  "map_of (lru (snd (analyze_page_structure example_env init_scraper ''http://example.com/page'')))
     ''http://example.com/page'' \<noteq> None"
  by code_simp

theorem analysis_is_cached_by_url_witness:
  "cache_ok init_scraper \<and>
   map_of (lru init_scraper) ''http://example.com/page'' = None \<and>
   card (set [''http://example.com/sparse'', ''http://example.com/missing'']) < 100 \<and>
   fst (analyze_page_structure example_env init_scraper ''http://example.com/page'') =
     fst (analyze_page_structure example_env
            (snd (analyze_page_structure example_env init_scraper ''http://example.com/page''))
            ''http://example.com/page'') \<and>
   fetches (snd (analyze_page_structure example_env init_scraper ''http://example.com/page'')) =
     fetches init_scraper + 1 \<and>
   fetches (snd (analyze_page_structure example_env
                   (snd (analyze_page_structure example_env init_scraper ''http://example.com/page''))
                   ''http://example.com/page'')) =
     fetches (snd (analyze_page_structure example_env init_scraper ''http://example.com/page'')) \<and>
   fst (analyze_page_structure example_env
          (analyze_many example_env
             (snd (analyze_page_structure example_env init_scraper ''http://example.com/page''))
             [''http://example.com/sparse'', ''http://example.com/missing''])
          ''http://example.com/page'') =
     fst (analyze_page_structure example_env init_scraper ''http://example.com/page'') \<and>
   set (lru (snd (analyze_page_structure example_env
                    (snd (analyze_page_structure example_env init_scraper ''http://example.com/page''))
                    ''http://example.com/page''))) =
     set (lru (snd (analyze_page_structure example_env init_scraper ''http://example.com/page'')))"
proof -
  let ?u = "''http://example.com/page''"
  let ?s = "\<lparr>title = Some ''T'', headings = [''Hi''], main_content = Some ''HiAB'',
          navigation = None,
          schema = \<lparr>schema_elements = [],
                    schema_lists = [\<lparr>list_type = ''ul'', items_count = 2, list_sample = Some ''A''\<rparr>],
                    schema_tables = [], schema_forms = []\<rparr>\<rparr>"
  let ?st1 = "snd (analyze_page_structure example_env init_scraper ?u)"
  let ?st2 = "snd (analyze_page_structure example_env ?st1 ?u)"
  let ?us = "[''http://example.com/sparse'', ''http://example.com/missing'']"
  have n: "map_of (lru init_scraper) ?u = None"
    by (simp add: init_scraper_def)
  have c: "card (set ?us) < 100" by simp
  have first: "analyze_page_structure example_env init_scraper ?u = (Inr ?s, ?st1)"
    using analyze_example by (simp add: prod_eq_iff)
  note t = analysis_is_cached_by_url [OF cache_ok_init first c]
  from t have a1: "fst (analyze_page_structure example_env ?st1 ?u) = Inr ?s"
    by (rule conjunct1)
  from t have a2: "fetches ?st2 = fetches ?st1"
    by (elim conjE)
  from t n have m1: "fetches ?st1 = fetches init_scraper + 1"
    by (elim conjE) simp
  from t have l1: "fst (analyze_page_structure example_env (analyze_many example_env ?st1 ?us) ?u) = Inr ?s"
    by (elim conjE)
  have ok1: "cache_ok ?st1"
    by (rule analyze_keeps_cache_ok [OF cache_ok_init])
  have second: "analyze_page_structure example_env ?st1 ?u = (Inr ?s, ?st2)"
    using a1 by (simp add: prod_eq_iff)
  from analysis_is_cached_by_url [OF ok1 second c] example_cached_after_analysis
  have h2: "set (lru ?st2) = set (lru ?st1)"
    by (elim conjE) simp
  from analyze_example a1 have e1: "fst (analyze_page_structure example_env init_scraper ?u) =
      fst (analyze_page_structure example_env ?st1 ?u)"
    by simp
  from analyze_example l1 have e2: "fst (analyze_page_structure example_env (analyze_many example_env ?st1 ?us) ?u) =
      fst (analyze_page_structure example_env init_scraper ?u)"
    by simp
  show ?thesis
    by (intro conjI) (rule cache_ok_init n c e1 m1 a2 e2 h2)+
qed

section \<open>Endpoint creation for a URL without a separator\<close>

lemma ascii_lower_slash:
  assumes "ascii_lower c = CHR ''/''"
  shows "c = CHR ''/''"
proof (cases "65 \<le> (of_char c :: nat) \<and> (of_char c :: nat) \<le> 90")
  case True
  with assms have "char_of (of_char c + 32 :: nat) = CHR ''/''"
    by (simp add: ascii_lower_def Let_def)
  then have "(of_char (char_of (of_char c + 32 :: nat)) :: nat) = of_char CHR ''/''"
    by simp
  with True show ?thesis by simp
next
  case False
  with assms show ?thesis by (simp add: ascii_lower_def Let_def)
qed

lemma separator_under_lower:
  assumes "sublist ''//'' (map ascii_lower s)"
  shows "sublist ''//'' s"
  using assms
proof (induction s)
  case Nil
  then show ?case by simp
next
  case (Cons x xs)
  from Cons.prems have "prefix ''//'' (ascii_lower x # map ascii_lower xs) \<or>
                         sublist ''//'' (map ascii_lower xs)"
    by (simp add: sublist_Cons_right)
  then show ?case
  proof
    assume "sublist ''//'' (map ascii_lower xs)"
    with Cons.IH have "sublist ''//'' xs" .
    then show ?thesis by (simp add: sublist_Cons_right)
  next
    assume p: "prefix ''//'' (ascii_lower x # map ascii_lower xs)"
    then have x: "ascii_lower x = CHR ''/''" and r: "prefix ''/'' (map ascii_lower xs)"
      by auto
    from r obtain y ys where xs: "xs = y # ys" and y: "ascii_lower y = CHR ''/''"
      by (cases xs) auto
    from x y have "x = CHR ''/''" "y = CHR ''/''"
      by (simp_all add: ascii_lower_slash)
    with xs have "prefix ''//'' (x # xs)" by simp
    then show ?thesis by (rule prefix_imp_sublist)
  qed
qed

lemma http_prefix_has_separator:
  assumes "prefix ''http://'' u \<or> prefix ''https://'' u"
  shows "sublist ''//'' u"
  using assms
proof
  assume "prefix ''http://'' u"
  then obtain r where "u = ''http://'' @ r" by (rule prefixE)
  then have "u = ''http:'' @ ''//'' @ r" by simp
  then show ?thesis by (simp only: sublist_appendI)
next
  assume "prefix ''https://'' u"
  then obtain r where "u = ''https://'' @ r" by (rule prefixE)
  then have "u = ''https:'' @ ''//'' @ r" by simp
  then show ?thesis by (simp only: sublist_appendI)
qed

lemma accepted_url_has_separator:
  assumes "accepted_url url"
  shows "sublist ''//'' url"
proof -
  from assms have "prefix ''http://'' (map ascii_lower (dropWhile is_space url)) \<or>
                   prefix ''https://'' (map ascii_lower (dropWhile is_space url))"
    by (simp add: accepted_url_def Let_def)
  then have "sublist ''//'' (map ascii_lower (dropWhile is_space url))"
    by (rule http_prefix_has_separator)
  then have "sublist ''//'' (dropWhile is_space url)"
    by (rule separator_under_lower)
  from sublist_order.order.trans [OF this sublist_dropWhile] show ?thesis .
qed

lemma cached_urls_accepted_init: "cached_urls_accepted init_scraper"
  by (simp add: cached_urls_accepted_def init_scraper_def)

lemma analyze_keeps_cached_urls_accepted:
  assumes "requests_like ev" and "cached_urls_accepted st"
  shows "cached_urls_accepted (snd (analyze_page_structure ev st u))"
proof (cases "map_of (lru st) u")
  case (Some v)
  then have "(u, v) \<in> set (lru st)" by (rule map_of_SomeD)
  with assms(2) have "accepted_url u"
    by (auto simp: cached_urls_accepted_def list_all_iff)
  with assms(2) show ?thesis
    by (auto simp: analyze_hit [OF Some] cached_urls_accepted_def list_all_iff)
next
  case None
  show ?thesis
  proof (cases "fst (analyze_uncached ev st u)")
    case (Inl e)
    with assms(2) show ?thesis
      by (simp add: analyze_miss [OF None] cached_urls_accepted_def)
  next
    case (Inr v)
    have "accepted_url u"
    proof (rule ccontr)
      assume "\<not> accepted_url u"
      with assms(1) have "web ev (fetches st) u = Inl invalid_url"
        by (simp add: requests_like_def)
      with Inr show False by (simp add: analyze_uncached_def Let_def)
    qed
    with assms(2) Inr show ?thesis
      by (auto simp: analyze_miss [OF None] cached_urls_accepted_def list_all_iff lru_store_def
               dest: in_set_butlastD)
  qed
qed

lemma generate_keeps_cached_urls_accepted:
  assumes "requests_like ev" and "cached_urls_accepted st"
  shows "cached_urls_accepted (snd (generate_api_endpoint ev st url query))"
  using analyze_keeps_cached_urls_accepted [OF assms, of url] generate_cache_state [of ev st url query]
  by (simp add: cached_urls_accepted_def)

lemma execute_keeps_cached_urls_accepted:
  assumes "cached_urls_accepted st"
  shows "cached_urls_accepted (snd (execute_scraping ev st endpoint_id))"
  using assms
  by (simp add: execute_scraping_def cached_urls_accepted_def Let_def split: option.splits sum.splits)

lemma requests_like_example: "requests_like example_env"
  unfolding requests_like_def
proof (intro allI impI)
  fix n url
  assume na: "\<not> accepted_url url"
  have "accepted_url ''http://example.com/page''" by code_simp
  with na have p: "url \<noteq> ''http://example.com/page''" by blast
  have "accepted_url ''http://example.com/sparse''" by code_simp
  with na have s: "url \<noteq> ''http://example.com/sparse''" by blast
  have "web example_env n url =
          (if url = ''http://example.com/page'' then Inr example_page
           else if url = ''http://example.com/sparse'' then Inr sparse_page
           else if accepted_url url then Inl (OtherError ''ConnectionError'')
           else Inl invalid_url)"
    by (simp add: example_env_def)
  also from na p s have "\<dots> = Inl invalid_url"
    by (simp only: if_False)
  finally show "web example_env n url = Inl invalid_url" .
qed

text \<open>
  Claim C10, as the code has it. For a URL without \<open>//\<close> the id derivation by itself
  raises \<open>IndexError\<close>. Endpoint creation never gets that far: the analysis comes first,
  such a URL is not in the cache, and \<open>requests.get\<close> rejects it, so
  \<open>analyze_page_structure\<close> and with it \<open>generate_api_endpoint\<close> fail with the error of
  the rejected URL and register nothing, and \<open>POST /api/analyze\<close> with such a URL and a
  query lets this error escape.
\<close>

theorem no_separator_no_endpoint:
  assumes "requests_like ev" and "cached_urls_accepted st" and "\<not> sublist ''//'' url"
  shows "generate_endpoint_id ev url query = Inl IndexError \<and>
         analyze_page_structure ev st url = (Inl invalid_url, st\<lparr>fetches := fetches st + 1\<rparr>) \<and>
         generate_api_endpoint ev st url query = (Inl invalid_url, st\<lparr>fetches := fetches st + 1\<rparr>) \<and>
         (url \<noteq> [] \<and> query \<noteq> [] \<longrightarrow>
            analyze_webpage ev st (Some url) (Some query) =
              (Inl invalid_url, st\<lparr>fetches := fetches st + 1\<rparr>))"
proof -
  have id: "generate_endpoint_id ev url query = Inl IndexError"
    by (simp add: generate_endpoint_id_def py_split_def split_on_no_occurrence [OF assms(3)])
  from assms(3) accepted_url_has_separator [of url] have na: "\<not> accepted_url url" by blast
  have nc: "map_of (lru st) url = None"
  proof (cases "map_of (lru st) url")
    case (Some v)
    then have "(url, v) \<in> set (lru st)" by (rule map_of_SomeD)
    with assms(2) have "accepted_url url"
      by (auto simp: cached_urls_accepted_def list_all_iff)
    with na show ?thesis by simp
  qed simp
  from assms(1) na have w: "web ev (fetches st) url = Inl invalid_url"
    by (simp add: requests_like_def)
  then have a: "analyze_page_structure ev st url = (Inl invalid_url, st\<lparr>fetches := fetches st + 1\<rparr>)"
    by (simp add: analyze_miss [OF nc] analyze_uncached_def Let_def)
  then have g: "generate_api_endpoint ev st url query = (Inl invalid_url, st\<lparr>fetches := fetches st + 1\<rparr>)"
    by (simp add: generate_api_endpoint_def)
  then have p: "url \<noteq> [] \<and> query \<noteq> [] \<longrightarrow>
            analyze_webpage ev st (Some url) (Some query) =
              (Inl invalid_url, st\<lparr>fetches := fetches st + 1\<rparr>)"
    by (simp add: analyze_webpage_def)
  show ?thesis
    by (intro conjI) (rule id a g p)+
qed

theorem no_separator_no_endpoint_witness:
  "requests_like example_env \<and> cached_urls_accepted init_scraper \<and>
   \<not> sublist ''//'' ''example.com'' \<and>
   generate_endpoint_id example_env ''example.com'' ''q'' = Inl IndexError \<and>
   generate_api_endpoint example_env init_scraper ''example.com'' ''q'' =
     (Inl invalid_url, init_scraper\<lparr>fetches := fetches init_scraper + 1\<rparr>) \<and>
   analyze_webpage example_env init_scraper (Some ''example.com'') (Some ''q'') =
     (Inl invalid_url, init_scraper\<lparr>fetches := fetches init_scraper + 1\<rparr>)"
proof -
  have n: "\<not> sublist ''//'' ''example.com''" by code_simp
  note t = no_separator_no_endpoint [OF requests_like_example cached_urls_accepted_init n,
      of "''q''"]
  from t have i: "generate_endpoint_id example_env ''example.com'' ''q'' = Inl IndexError"
    by (rule conjunct1)
  from t have g: "generate_api_endpoint example_env init_scraper ''example.com'' ''q'' =
     (Inl invalid_url, init_scraper\<lparr>fetches := fetches init_scraper + 1\<rparr>)"
    by (elim conjE)
  from t have w: "analyze_webpage example_env init_scraper (Some ''example.com'') (Some ''q'') =
     (Inl invalid_url, init_scraper\<lparr>fetches := fetches init_scraper + 1\<rparr>)"
    by simp
  show ?thesis
    by (intro conjI) (rule requests_like_example cached_urls_accepted_init n i g w)+
qed

text \<open>
  Claim C10, as stated, fails: for the URL \<open>example.com\<close> the error of
  \<open>generate_api_endpoint\<close> is that of the rejected URL, not an indexing error.
\<close>

theorem fetch_error_precedes_indexing_error:
  "\<not> sublist ''//'' ''example.com'' \<and>
   fst (generate_api_endpoint example_env init_scraper ''example.com'' ''q'') =
     Inl (ValueError ''Invalid URL'') \<and>
   fst (generate_api_endpoint example_env init_scraper ''example.com'' ''q'') \<noteq> Inl IndexError"
  by code_simp

end
